theory Spec2Isabelle
  imports Main "HOL-Library.Code_Target_Nat"
begin

section \<open>The Text Classifier node: values, items and configuration\<close>

text \<open>
  The development embeds \<^verbatim>\<open>TextClassifier.node.ts\<close>: the \<^verbatim>\<open>execute\<close> method of the node
  with its two modes (categories loaded from the input items, one answer for the whole
  run; categories from the node parameters, one answer per input item).

  JavaScript values that the code inspects (\<^verbatim>\<open>typeof x !== 'string'\<close>,
  \<^verbatim>\<open>x === undefined || x === null\<close>, the truthiness of \<^verbatim>\<open>output[key]\<close>) are a datatype.
\<close>

datatype jv = JUndefined | JNull | JBool bool | JNum int | JStr string

fun truthy :: "jv \<Rightarrow> bool" where
  "truthy JUndefined = False"
| "truthy JNull = False"
| "truthy (JBool b) = b"
| "truthy (JNum n) = (n \<noteq> 0)"
| "truthy (JStr s) = (s \<noteq> [])"

fun is_string :: "jv \<Rightarrow> bool" where
  "is_string (JStr s) = True"
| "is_string v = False"

fun string_value :: "jv \<Rightarrow> string" where
  "string_value (JStr s) = s"
| "string_value v = []"

subsection \<open>Plain objects with JavaScript's property order\<close>

text \<open>
  A plain object is the list of its own properties in the order \<^verbatim>\<open>Object.keys\<close>
  reports them: array-index keys (the canonical decimal numerals up to \<open>2^32 - 2\<close>) first,
  in ascending numeric order, then every other string key in order of creation. Defining
  a property that exists keeps its place and replaces its value; this is what
  \<^verbatim>\<open>Object.fromEntries\<close> and an object spread do for each entry in turn.
\<close>

type_synonym 'v obj = "(string \<times> 'v) list"

definition is_digit :: "char \<Rightarrow> bool" where
  "is_digit c = (c \<in> set ''0123456789'')"

definition digit_val :: "char \<Rightarrow> nat" where
  "digit_val c = of_char c - 48"

definition nat_of_digits :: "string \<Rightarrow> nat" where
  "nat_of_digits s = foldl (\<lambda>n c. 10 * n + digit_val c) 0 s"

definition array_index :: "string \<Rightarrow> nat option" where
  "array_index s =
     (if s \<noteq> [] \<and> list_all is_digit s \<and> (hd s \<noteq> CHR ''0'' \<or> length s = 1)
         \<and> nat_of_digits s \<le> 4294967294
      then Some (nat_of_digits s) else None)"

definition goes_before :: "string \<Rightarrow> string \<Rightarrow> bool" where
  "goes_before k k' =
     (case array_index k of
        None \<Rightarrow> False
      | Some n \<Rightarrow> (case array_index k' of None \<Rightarrow> True | Some m \<Rightarrow> n < m))"

fun insert_prop :: "'v obj \<Rightarrow> string \<Rightarrow> 'v \<Rightarrow> 'v obj" where
  "insert_prop [] k v = [(k, v)]"
| "insert_prop ((k', v') # ps) k v =
     (if goes_before k k' then (k, v) # (k', v') # ps else (k', v') # insert_prop ps k v)"

fun replace_prop :: "'v obj \<Rightarrow> string \<Rightarrow> 'v \<Rightarrow> 'v obj" where
  "replace_prop [] k v = []"
| "replace_prop ((k', v') # ps) k v =
     (if k' = k then (k, v) # ps else (k', v') # replace_prop ps k v)"

definition set_prop :: "'v obj \<Rightarrow> string \<Rightarrow> 'v \<Rightarrow> 'v obj" where
  "set_prop ob k v = (if k \<in> fst ` set ob then replace_prop ob k v else insert_prop ob k v)"

definition fromEntries :: "(string \<times> 'v) list \<Rightarrow> 'v obj" where
  "fromEntries es = foldl (\<lambda>ob (k, v). set_prop ob k v) [] es"

definition keys :: "'v obj \<Rightarrow> string list" where
  "keys ob = map fst ob"

text \<open>
  Reading a property: \<^verbatim>\<open>undefined\<close> when the object has no such own property. The
  objects read this way are the \<^verbatim>\<open>json\<close> payload of an input item (for \<^verbatim>\<open>category\<close> and
  \<^verbatim>\<open>description\<close>) and a parsed answer, which has every key that is read as an own
  property.
\<close>

definition get_prop :: "jv obj \<Rightarrow> string \<Rightarrow> jv" where
  "get_prop ob k = (case map_of ob k of None \<Rightarrow> JUndefined | Some v \<Rightarrow> v)"

subsection \<open>Items, categories, options\<close>

record item =
  json :: "jv obj"
  pairedItem :: "nat option"

record cat =
  category :: string
  description :: string

text \<open>
  The \<^verbatim>\<open>fallback\<close> option is declared with the two values \<^verbatim>\<open>'discard'\<close> and
  \<^verbatim>\<open>'other'\<close>; every option may be absent from the options collection.
\<close>

datatype fallback_policy = Discard | Other

record options =
  multiClass :: "bool option"
  fallback :: "fallback_policy option"
  systemPromptTemplate :: "string option"
  enableAutoFixing :: "bool option"

text \<open>
  What the host hands to \<^verbatim>\<open>execute\<close>: the input items (\<^verbatim>\<open>getInputData\<close>), the node
  parameters (\<^verbatim>\<open>getNodeParameter\<close>, the input text resolved per item index) and the
  \<^verbatim>\<open>continueOnFail\<close> flag. The accessors are taken to return a value; the value of the
  input text may be \<^verbatim>\<open>undefined\<close> or \<^verbatim>\<open>null\<close>. \<open>categories_param = None\<close> stands for a
  falsy value of the \<^verbatim>\<open>categories.categories\<close> parameter.
\<close>

record ctx =
  items :: "item list"
  loadCategoriesFromInputItems :: bool
  categories_param :: "cat list option"
  inputText :: "nat \<Rightarrow> jv"
  options_param :: options
  continueOnFail :: bool

text \<open>
  What \<^verbatim>\<open>execute\<close> throws: a \<^verbatim>\<open>NodeOperationError\<close> with its message, the error caught
  from the chain and thrown again (\<^verbatim>\<open>throw error\<close>), with the message of that error, or
  the error that \<^verbatim>\<open>SystemMessagePromptTemplate.fromTemplate\<close> throws on a malformed system
  prompt template while the chain is built, which nothing catches.
\<close>

datatype exec_error = NodeOperationError string | Rethrown string | TemplateError string

section \<open>Collaborators: prompt templates, language model and structured-output parser\<close>

text \<open>
  The prompt templates, the language model and the output parsers are libraries outside
  the node; they are parameters of the embedding.

  \<^item> \<open>template_error\<close> is the message of the error that
    \<^verbatim>\<open>SystemMessagePromptTemplate.fromTemplate\<close> throws on a template text (a single
    closing brace, say), or \<open>None\<close> when the text is a template.
  \<^item> \<open>render_error\<close> is the message of the error that the prompt stage of the chain
    throws when it fills the template with the values of an invocation (a variable of
    the template that the invocation does not bind, say), or \<open>None\<close> when the prompt
    renders. The rendered prompt is determined by the template and the bound values, so
    a request stands for it.
  \<^item> \<open>llm\<close> answers a request with raw text (\<open>Inr\<close>) or fails with an error message
    (\<open>Inl\<close>). It sees the requests made before, so it need not answer the same request
    twice in the same way. A request of the chain carries the system template and the
    three values bound at the invocation (\<^verbatim>\<open>categories\<close>, \<^verbatim>\<open>format_instructions\<close>,
    \<^verbatim>\<open>inputText\<close>); a repair request of the output-fixing parser carries the format
    instructions, the rejected completion and the parser's error.
  \<^item> \<open>format_instructions\<close> is \<^verbatim>\<open>getFormatInstructions\<close> of the structured parser.
  \<^item> \<open>parse\<close> is the structured parser over the schema: it rejects the text with an
    error message, or yields one boolean per schema field.

  Every call of \<open>llm\<close> is recorded in a log, in order.
\<close>

datatype request =
  Classify string string string jv
| Repair string string string

type_synonym schema = "string obj"
type_synonym log = "request list"

record env =
  template_error :: "string \<Rightarrow> string option"
  render_error :: "request \<Rightarrow> string option"
  llm :: "request list \<Rightarrow> request \<Rightarrow> string + string"
  format_instructions :: "schema \<Rightarrow> string"
  parse :: "schema \<Rightarrow> string \<Rightarrow> string + (string \<Rightarrow> bool)"

definition call_llm :: "env \<Rightarrow> request \<Rightarrow> log \<Rightarrow> (string + string) \<times> log" where
  "call_llm e r lg = (llm e lg r, lg @ [r])"

text \<open>
  Modelled from the spec: the parser built by \<^verbatim>\<open>StructuredOutputParser.fromZodSchema\<close> is
  a library class. An accepted answer "must contain exactly the fields declared by" the
  schema, here one boolean for every key of the \<^verbatim>\<open>z.object\<close> of \<^verbatim>\<open>z.boolean()\<close> fields;
  anything else is a parse error.
\<close>

definition structured_parse :: "env \<Rightarrow> schema \<Rightarrow> string \<Rightarrow> string + jv obj" where
  "structured_parse e sch raw =
     (case parse e sch raw of
        Inl err \<Rightarrow> Inl err
      | Inr val \<Rightarrow> Inr (map (\<lambda>(k, d). (k, JBool (val k))) sch))"

text \<open>
  Modelled from the spec: the parser built by \<^verbatim>\<open>OutputFixingParser.fromLLM\<close> is a library
  class. "If validation fails and autoFix is enabled, attempt one repair pass (an
  additional model round-trip guided by the validation error) before re-validating; if
  still invalid [...] fail": the model is asked once to repair the rejected text, and a
  second rejection, or a failure of the repair call, is the error.
\<close>

definition fixing_parse :: "env \<Rightarrow> schema \<Rightarrow> string \<Rightarrow> log \<Rightarrow> (string + jv obj) \<times> log" where
  "fixing_parse e sch raw lg =
     (case structured_parse e sch raw of
        Inr ans \<Rightarrow> (Inr ans, lg)
      | Inl err \<Rightarrow>
          (case call_llm e (Repair (format_instructions e sch) raw err) lg of
             (Inl err', lg') \<Rightarrow> (Inl err', lg')
           | (Inr raw', lg') \<Rightarrow> (structured_parse e sch raw', lg')))"

section \<open>Schema, prompt and chain\<close>

definition SYSTEM_PROMPT_TEMPLATE :: string where
  "SYSTEM_PROMPT_TEMPLATE =
     ''Please classify the text provided by the user into one of the following categories: {categories}, and use the provided formatting instructions below. Don''
     @ [CHR 0x27]
     @ ''t explain, and only output the json.''"

text \<open>
  The entries of the schema, \<^verbatim>\<open>[key, z.boolean().describe(text)]\<close>: every field is a
  boolean, so an entry is the key with the description. \<^verbatim>\<open>Object.fromEntries\<close> makes the
  object of the schema from them.
\<close>

definition field_description :: "cat \<Rightarrow> string" where
  "field_description c =
     ''Should be true if the input has category '' @ [CHR 0x22] @ category c @ [CHR 0x22]
     @ '' (description: '' @ description c @ '')''"

definition schemaEntries :: "cat list \<Rightarrow> fallback_policy \<Rightarrow> (string \<times> string) list" where
  "schemaEntries categories fb =
     map (\<lambda>c. (category c, field_description c)) categories
     @ (if fb = Other
        then [(''fallback'', ''Should be true if none of the other categories apply'')]
        else [])"

definition build_schema :: "cat list \<Rightarrow> fallback_policy \<Rightarrow> schema" where
  "build_schema categories fb = fromEntries (schemaEntries categories fb)"

definition multiClassPrompt :: "bool \<Rightarrow> string" where
  "multiClassPrompt mc =
     (if mc then ''Categories are not mutually exclusive, and multiple can be true''
      else ''Categories are mutually exclusive, and only one can be true'')"

fun fallbackPrompt :: "fallback_policy \<Rightarrow> string" where
  "fallbackPrompt Other =
     ''If no categories apply, select the '' @ [CHR 0x22] @ ''fallback'' @ [CHR 0x22] @ '' option.''"
| "fallbackPrompt Discard =
     ''If there is not a very fitting category, select none of the categories.''"

definition opt_multiClass :: "options \<Rightarrow> bool" where
  "opt_multiClass opts = (case multiClass opts of None \<Rightarrow> False | Some b \<Rightarrow> b)"

definition opt_fallback :: "options \<Rightarrow> fallback_policy" where
  "opt_fallback opts = (case fallback opts of None \<Rightarrow> Discard | Some f \<Rightarrow> f)"

definition opt_autofix :: "options \<Rightarrow> bool" where
  "opt_autofix opts = (case enableAutoFixing opts of None \<Rightarrow> False | Some b \<Rightarrow> b)"

definition system_template :: "options \<Rightarrow> string" where
  "system_template opts =
     (case systemPromptTemplate opts of None \<Rightarrow> SYSTEM_PROMPT_TEMPLATE | Some t \<Rightarrow> t)
     @ [CHR 0x0A] @ ''{format_instructions}''
     @ [CHR 0x0A] @ multiClassPrompt (opt_multiClass opts)
     @ [CHR 0x0A] @ fallbackPrompt (opt_fallback opts)"

fun join :: "string \<Rightarrow> string list \<Rightarrow> string" where
  "join sep [] = []"
| "join sep [x] = x"
| "join sep (x # y # ys) = x @ sep @ join sep (y # ys)"

text \<open>
  The chain \<^verbatim>\<open>prompt.pipe(llm).pipe(parser)\<close> is fixed by the system template, the
  schema of the parser and the choice of parser (\<open>chain_config\<close>). It is built once,
  before any item is looked at, and building it fails when the text of the system
  template is malformed (\<open>build_chain\<close>).
\<close>

record chain =
  chain_template :: string
  chain_schema :: schema
  chain_autofix :: bool

definition chain_config :: "options \<Rightarrow> cat list \<Rightarrow> chain" where
  "chain_config opts categories =
     \<lparr> chain_template = system_template opts,
       chain_schema = build_schema categories (opt_fallback opts),
       chain_autofix = opt_autofix opts \<rparr>"

definition build_chain :: "env \<Rightarrow> options \<Rightarrow> cat list \<Rightarrow> exec_error + chain" where
  "build_chain e opts categories =
     (case template_error e (system_template opts) of
        Some msg \<Rightarrow> Inl (TemplateError msg)
      | None \<Rightarrow> Inr (chain_config opts categories))"

definition chain_request :: "env \<Rightarrow> chain \<Rightarrow> cat list \<Rightarrow> jv \<Rightarrow> request" where
  "chain_request e ch categories input =
     Classify (chain_template ch) (join '', '' (map category categories))
       (format_instructions e (chain_schema ch)) input"

text \<open>
  \<^verbatim>\<open>chain.invoke\<close>: the prompt is rendered, the model is called once on it, and the
  parser reads the model's text. \<open>Inl\<close> is the message of the error it throws; when the
  prompt does not render, the model is not called.
\<close>

definition chain_invoke ::
  "env \<Rightarrow> chain \<Rightarrow> cat list \<Rightarrow> jv \<Rightarrow> log \<Rightarrow> (string + jv obj) \<times> log" where
  "chain_invoke e ch categories input lg =
     (case render_error e (chain_request e ch categories input) of
        Some err \<Rightarrow> (Inl err, lg)
      | None \<Rightarrow>
          (case call_llm e (chain_request e ch categories input) lg of
             (Inl err, lg') \<Rightarrow> (Inl err, lg')
           | (Inr raw, lg') \<Rightarrow>
               (if chain_autofix ch then fixing_parse e (chain_schema ch) raw lg'
                else (structured_parse e (chain_schema ch) raw, lg'))))"

section \<open>The \<^verbatim>\<open>execute\<close> method\<close>

subsection \<open>Item indices in messages\<close>

definition digit_char :: "nat \<Rightarrow> char" where
  "digit_char n = ''0123456789'' ! n"

fun string_of_nat :: "nat \<Rightarrow> string" where
  "string_of_nat n =
     (if n < 10 then [digit_char n] else string_of_nat (n div 10) @ [digit_char (n mod 10)])"

declare string_of_nat.simps [simp del]

subsection \<open>Categories loaded from the input items\<close>

text \<open>
  \<^verbatim>\<open>items.map((item, idx) => ...)\<close>: the first item whose \<^verbatim>\<open>category\<close> or
  \<^verbatim>\<open>description\<close> is not a string throws, naming its index.
\<close>

definition missing_field_message :: "nat \<Rightarrow> string" where
  "missing_field_message idx =
     ''Input item '' @ string_of_nat idx @ '' is missing a valid '' @ [CHR 0x27] @ ''category''
     @ [CHR 0x27] @ '' or '' @ [CHR 0x27] @ ''description'' @ [CHR 0x27] @ '' field.''"

fun load_categories :: "nat \<Rightarrow> item list \<Rightarrow> exec_error + cat list" where
  "load_categories idx [] = Inr []"
| "load_categories idx (it # rest) =
     (let c = get_prop (json it) ''category'';
          d = get_prop (json it) ''description''
      in if \<not> is_string c \<or> \<not> is_string d
         then Inl (NodeOperationError (missing_field_message idx))
         else (case load_categories (Suc idx) rest of
                 Inl err \<Rightarrow> Inl err
               | Inr cs \<Rightarrow>
                   Inr (\<lparr> category = string_value c, description = string_value d \<rparr> # cs)))"

subsection \<open>Routing one item\<close>

text \<open>
  \<^verbatim>\<open>returnData[i].push(x)\<close>. Every index the code uses lies within \<^verbatim>\<open>returnData\<close>
  (lemmas \<open>length_route\<close> and \<open>process_items_length\<close> below keep the length at the
  number of categories, plus one under the policy \<open>Other\<close>, and the category list is
  not empty), so the guard never fails in a run.
\<close>

definition push_branch :: "item list list \<Rightarrow> nat \<Rightarrow> item \<Rightarrow> item list list" where
  "push_branch returnData i x =
     (if i < length returnData then returnData[i := returnData ! i @ [x]] else returnData)"

text \<open>\<^verbatim>\<open>categories.forEach((cat, idx) => { if (output[cat.category]) returnData[idx].push(item) })\<close>\<close>

fun route_categories ::
  "cat list \<Rightarrow> nat \<Rightarrow> jv obj \<Rightarrow> item \<Rightarrow> item list list \<Rightarrow> item list list" where
  "route_categories [] idx output it returnData = returnData"
| "route_categories (c # cs) idx output it returnData =
     route_categories cs (Suc idx) output it
       (if truthy (get_prop output (category c)) then push_branch returnData idx it
        else returnData)"

definition route ::
  "cat list \<Rightarrow> fallback_policy \<Rightarrow> jv obj \<Rightarrow> item \<Rightarrow> item list list \<Rightarrow> item list list" where
  "route categories fb output it returnData =
     (let rd = route_categories categories 0 output it returnData
      in if fb = Other \<and> truthy (get_prop output ''fallback'')
         then push_branch rd (length rd - 1) it else rd)"

definition error_item :: "string \<Rightarrow> nat \<Rightarrow> item" where
  "error_item msg itemIdx = \<lparr> json = [(''error'', JStr msg)], pairedItem = Some itemIdx \<rparr>"

definition missing_text_message :: "nat \<Rightarrow> string" where
  "missing_text_message itemIdx =
     ''Text to classify for item '' @ string_of_nat itemIdx @ '' is not defined''"

subsection \<open>The loop over the input items\<close>

text \<open>
  One iteration of the loop. The result is the new \<^verbatim>\<open>returnData\<close> (\<open>Inr\<close>, the loop
  goes on) or the error thrown out of \<^verbatim>\<open>execute\<close> (\<open>Inl\<close>), with the log of model
  calls.
\<close>

definition process_item ::
  "env \<Rightarrow> ctx \<Rightarrow> chain \<Rightarrow> cat list \<Rightarrow> fallback_policy \<Rightarrow> nat \<Rightarrow> item \<Rightarrow> item list list \<Rightarrow> log
     \<Rightarrow> (exec_error + item list list) \<times> log" where
  "process_item e cx ch categories fb itemIdx it0 returnData lg =
     (let it = it0\<lparr> pairedItem := Some itemIdx \<rparr>;
          input = inputText cx itemIdx
      in if input = JUndefined \<or> input = JNull
         then (if continueOnFail cx
               then (Inr (push_branch returnData 0
                            (error_item ''Text to classify is not defined'' itemIdx)), lg)
               else (Inl (NodeOperationError (missing_text_message itemIdx)), lg))
         else (case chain_invoke e ch categories input lg of
                 (Inr output, lg') \<Rightarrow> (Inr (route categories fb output it returnData), lg')
               | (Inl msg, lg') \<Rightarrow>
                   (if continueOnFail cx
                    then (Inr (push_branch returnData 0 (error_item msg itemIdx)), lg')
                    else (Inl (Rethrown msg), lg'))))"

fun process_items ::
  "env \<Rightarrow> ctx \<Rightarrow> chain \<Rightarrow> cat list \<Rightarrow> fallback_policy \<Rightarrow> nat \<Rightarrow> item list \<Rightarrow> item list list
     \<Rightarrow> log \<Rightarrow> (exec_error + item list list) \<times> log" where
  "process_items e cx ch categories fb itemIdx [] returnData lg = (Inr returnData, lg)"
| "process_items e cx ch categories fb itemIdx (it # rest) returnData lg =
     (case process_item e cx ch categories fb itemIdx it returnData lg of
        (Inl err, lg') \<Rightarrow> (Inl err, lg')
      | (Inr rd, lg') \<Rightarrow> process_items e cx ch categories fb (Suc itemIdx) rest rd lg')"

subsection \<open>\<^verbatim>\<open>execute\<close>\<close>

definition no_category_error :: exec_error where
  "no_category_error = NodeOperationError ''At least one category must be defined''"

definition execute :: "env \<Rightarrow> ctx \<Rightarrow> (exec_error + item list list) \<times> log" where
  "execute e cx =
     (if loadCategoriesFromInputItems cx
      then (case load_categories 0 (items cx) of
              Inl err \<Rightarrow> (Inl err, [])
            | Inr categories \<Rightarrow>
                if categories = [] then (Inl no_category_error, [])
                else let input = inputText cx 0
                     in if input = JUndefined \<or> input = JNull
                        then (Inl (NodeOperationError ''Text to classify is not defined''), [])
                        else (case build_chain e (options_param cx) categories of
                                Inl err \<Rightarrow> (Inl err, [])
                              | Inr ch \<Rightarrow>
                                  (case chain_invoke e ch categories input [] of
                                     (Inr output, lg) \<Rightarrow>
                                       (Inr [[\<lparr> json = fromEntries (output @ [(''input'', input)]),
                                                pairedItem = None \<rparr>]], lg)
                                   | (Inl msg, lg) \<Rightarrow>
                                       (Inr [[\<lparr> json = [(''error'', JStr msg)],
                                                pairedItem = None \<rparr>]], lg))))
      else (case categories_param cx of
              None \<Rightarrow> (Inl no_category_error, [])
            | Some categories \<Rightarrow>
                if categories = [] then (Inl no_category_error, [])
                else let fb = opt_fallback (options_param cx)
                     in (case build_chain e (options_param cx) categories of
                           Inl err \<Rightarrow> (Inl err, [])
                         | Inr ch \<Rightarrow>
                             process_items e cx ch categories fb 0 (items cx)
                               (replicate (length categories + (if fb = Other then 1 else 0)) [])
                               [])))"

text \<open>
  The per-item mode after the first \<open>k\<close> iterations of its loop, as \<^verbatim>\<open>execute\<close> starts
  it: the chain built from the options and the categories, one empty branch per category
  and one more under the policy \<open>Other\<close>, and an empty log. It is the error thrown while
  the chain was built or in the loop, or the branches filled so far.
\<close>

definition loop_state :: "env \<Rightarrow> ctx \<Rightarrow> cat list \<Rightarrow> nat \<Rightarrow> (exec_error + item list list) \<times> log" where
  "loop_state e cx categories k =
     (case build_chain e (options_param cx) categories of
        Inl err \<Rightarrow> (Inl err, [])
      | Inr ch \<Rightarrow>
          process_items e cx ch categories (opt_fallback (options_param cx)) 0
            (take k (items cx))
            (replicate (length categories
                        + (if opt_fallback (options_param cx) = Other then 1 else 0)) [])
            [])"

subsection \<open>JavaScript's key order, as a relation\<close>

text \<open>
  \<open>key_le a b\<close>: key \<open>a\<close> may stand before key \<open>b\<close> in \<^verbatim>\<open>Object.keys\<close>. Array indices
  ascend and precede every other key.
\<close>

definition key_le :: "string \<Rightarrow> string \<Rightarrow> bool" where
  "key_le a b =
     (case array_index a of
        None \<Rightarrow> array_index b = None
      | Some n \<Rightarrow> (case array_index b of None \<Rightarrow> True | Some m \<Rightarrow> n \<le> m))"

section \<open>Example configurations\<close>

text \<open>
  A stub model that echoes the input text (and fails on the text \<open>bad\<close>), and a stub
  parser that reads the echoed text as the one field that is true (\<open>*\<close>: every field is
  true; \<open>?\<close>: the text is rejected). The stub of the prompt library rejects the template
  \<^verbatim>\<open>a } b\<close> as malformed and cannot render the template \<^verbatim>\<open>Classify {foo}\<close>, whose
  variable no invocation binds. \<open>ex_env_reply\<close> is the same with a model that gives one
  fixed reply. The theorems below are instantiated with them.
\<close>

definition ex_cats :: "cat list" where
  "ex_cats = [\<lparr> category = ''Bug'', description = ''defect report'' \<rparr>,
              \<lparr> category = ''Feature'', description = ''enhancement request'' \<rparr>]"

definition ex_env :: env where
  "ex_env =
     \<lparr> template_error = (\<lambda>t. if take 5 t = ''a } b'' then Some ''Single } in template''
                             else None),
       render_error = (\<lambda>r. case r of
                  Classify t c f inp \<Rightarrow>
                    if take 14 t = ''Classify {foo}''
                    then Some ''Missing value for input variable foo'' else None
                | Repair i c err \<Rightarrow> None),
       llm = (\<lambda>lg r. case r of
                  Classify t c f inp \<Rightarrow>
                    (case inp of
                       JStr s \<Rightarrow> if s = ''bad'' then Inl ''boom'' else Inr s
                     | _ \<Rightarrow> Inr [])
                | Repair i c err \<Rightarrow> Inr ''fallback''),
       format_instructions = (\<lambda>sch. ''FORMAT''),
       parse = (\<lambda>sch raw. if raw = ''?'' then Inl ''cannot parse''
                           else Inr (\<lambda>k. raw = ''*'' \<or> k = raw)) \<rparr>"

definition ex_env_reply :: "string \<Rightarrow> env" where
  "ex_env_reply reply = ex_env \<lparr> llm := (\<lambda>lg r. Inr reply) \<rparr>"

definition ex_opts :: "fallback_policy \<Rightarrow> options" where
  "ex_opts fb = \<lparr> multiClass = Some False, fallback = Some fb,
                  systemPromptTemplate = None, enableAutoFixing = Some False \<rparr>"

definition ex_ctx_template :: "string \<Rightarrow> jv list \<Rightarrow> bool \<Rightarrow> ctx" where
  "ex_ctx_template t texts tolerant =
     \<lparr> items = map (\<lambda>t. \<lparr> json = [(''text'', t)], pairedItem = None \<rparr>) texts,
       loadCategoriesFromInputItems = False,
       categories_param = Some ex_cats,
       inputText = (\<lambda>i. if i < length texts then texts ! i else JUndefined),
       options_param = (ex_opts Discard) \<lparr> systemPromptTemplate := Some t \<rparr>,
       continueOnFail = tolerant \<rparr>"

definition ex_ctx :: "cat list \<Rightarrow> jv list \<Rightarrow> fallback_policy \<Rightarrow> bool \<Rightarrow> ctx" where
  "ex_ctx cs texts fb tolerant =
     \<lparr> items = map (\<lambda>t. \<lparr> json = [(''text'', t)], pairedItem = None \<rparr>) texts,
       loadCategoriesFromInputItems = False,
       categories_param = Some cs,
       inputText = (\<lambda>i. if i < length texts then texts ! i else JUndefined),
       options_param = ex_opts fb,
       continueOnFail = tolerant \<rparr>"

definition ex_agg_ctx :: "cat list \<Rightarrow> jv \<Rightarrow> ctx" where
  "ex_agg_ctx cs t =
     \<lparr> items = map (\<lambda>c. \<lparr> json = [(''category'', JStr (category c)),
                                     (''description'', JStr (description c))],
                            pairedItem = None \<rparr>) cs,
       loadCategoriesFromInputItems = True,
       categories_param = None,
       inputText = (\<lambda>i. t),
       options_param = ex_opts Discard,
       continueOnFail = False \<rparr>"

section \<open>Properties of objects\<close>

lemma keys_replace_prop: "map fst (replace_prop ob k v) = map fst ob"
  by (induction ob) auto

lemma set_keys_insert_prop: "fst ` set (insert_prop ob k v) = insert k (fst ` set ob)"
  by (induction ob k v rule: insert_prop.induct) (simp_all add: insert_commute)

lemma length_insert_prop: "length (insert_prop ob k v) = Suc (length ob)"
  by (induction ob) auto

lemma length_replace_prop: "length (replace_prop ob k v) = length ob"
  by (induction ob) auto

lemma distinct_insert_prop:
  "k \<notin> fst ` set ob \<Longrightarrow> distinct (map fst ob) \<Longrightarrow> distinct (map fst (insert_prop ob k v))"
proof (induction ob)
  case Nil
  then show ?case by simp
next
  case (Cons p ps)
  obtain k' v' where p: "p = (k', v')" by (cases p)
  have "k' \<notin> fst ` set (insert_prop ps k v)"
    using Cons.prems by (auto simp: set_keys_insert_prop p)
  with Cons show ?case by (auto simp: p)
qed

lemma set_keys_set_prop: "fst ` set (set_prop ob k v) = insert k (fst ` set ob)"
proof (cases "k \<in> fst ` set ob")
  case True
  have "fst ` set (replace_prop ob k v) = set (map fst (replace_prop ob k v))" by simp
  also have "\<dots> = fst ` set ob" by (simp only: keys_replace_prop) simp
  finally show ?thesis using True by (auto simp: set_prop_def)
next
  case False
  then show ?thesis by (simp add: set_prop_def set_keys_insert_prop)
qed

lemma distinct_set_prop:
  "distinct (map fst ob) \<Longrightarrow> distinct (map fst (set_prop ob k v))"
  by (simp add: set_prop_def keys_replace_prop distinct_insert_prop)

lemma fromEntries_snoc: "fromEntries (es @ [(k, v)]) = set_prop (fromEntries es) k v"
  by (simp add: fromEntries_def)

lemma set_keys_fromEntries: "fst ` set (fromEntries es) = fst ` set es"
proof (induction es rule: rev_induct)
  case Nil
  then show ?case by (simp add: fromEntries_def)
next
  case (snoc p es)
  obtain k v where p: "p = (k, v)" by (cases p)
  show ?case using snoc by (simp add: p fromEntries_snoc set_keys_set_prop)
qed

lemma distinct_keys_fromEntries: "distinct (map fst (fromEntries es))"
proof (induction es rule: rev_induct)
  case Nil
  then show ?case by (simp add: fromEntries_def)
next
  case (snoc p es)
  obtain k v where p: "p = (k, v)" by (cases p)
  show ?case using snoc by (simp add: p fromEntries_snoc distinct_set_prop)
qed

lemma length_fromEntries: "length (fromEntries es) = card (fst ` set es)"
proof -
  have "length (fromEntries es) = length (map fst (fromEntries es))" by simp
  also have "\<dots> = card (set (map fst (fromEntries es)))"
    using distinct_keys_fromEntries [of es] by (simp only: distinct_card)
  also have "\<dots> = card (fst ` set es)" by (simp add: set_keys_fromEntries)
  finally show ?thesis .
qed

text \<open>Keys that are not array indices stay in order of creation.\<close>

lemma goes_before_nonindex [simp]: "array_index k = None \<Longrightarrow> \<not> goes_before k k'"
  by (simp add: goes_before_def)

lemma insert_prop_nonindex: "array_index k = None \<Longrightarrow> insert_prop ob k v = ob @ [(k, v)]"
  by (induction ob) auto

lemma filter_insert_prop:
  "filter (\<lambda>k. array_index k = None) (map fst (insert_prop ob k v)) =
   filter (\<lambda>k. array_index k = None) (map fst ob) @ (if array_index k = None then [k] else [])"
  by (induction ob) (auto)

lemma fromEntries_plain:
  "distinct (map fst es) \<Longrightarrow> \<forall>k \<in> fst ` set es. array_index k = None \<Longrightarrow> fromEntries es = es"
proof (induction es rule: rev_induct)
  case Nil
  then show ?case by (simp add: fromEntries_def)
next
  case (snoc p es)
  obtain k v where p: "p = (k, v)" by (cases p)
  from snoc.prems have d: "distinct (map fst es)" and kn: "k \<notin> fst ` set es"
    and ai: "array_index k = None" and rest: "\<forall>k \<in> fst ` set es. array_index k = None"
    by (auto simp: p)
  have "fromEntries es = es" using snoc.IH d rest by blast
  then show ?case using kn ai by (simp add: p fromEntries_snoc set_prop_def insert_prop_nonindex)
qed

text \<open>Reading a key of \<open>fromEntries\<close>: the last entry for the key wins.\<close>

lemma map_of_replace_prop:
  "map_of (replace_prop ob k v) = (if k \<in> fst ` set ob then (map_of ob)(k \<mapsto> v) else map_of ob)"
  by (induction ob k v rule: replace_prop.induct) (auto simp: fun_upd_twist)

lemma map_of_insert_prop:
  "k \<notin> fst ` set ob \<Longrightarrow> map_of (insert_prop ob k v) = (map_of ob)(k \<mapsto> v)"
proof (induction ob k v rule: insert_prop.induct)
  case (1 k v)
  then show ?case by simp
next
  case (2 k' v' ps k v)
  then show ?case by (auto simp: fun_upd_twist)
qed

lemma map_of_set_prop: "map_of (set_prop ob k v) = (map_of ob)(k \<mapsto> v)"
  by (simp add: set_prop_def map_of_replace_prop map_of_insert_prop)

lemma map_of_fromEntries: "map_of (fromEntries es) = map_of (rev es)"
proof (induction es rule: rev_induct)
  case Nil
  then show ?case by (simp add: fromEntries_def)
next
  case (snoc p es)
  obtain k v where p: "p = (k, v)" by (cases p)
  show ?case using snoc by (simp add: p fromEntries_snoc map_of_set_prop)
qed

text \<open>The keys of a built object are in JavaScript's order.\<close>

lemma sorted_insert_prop:
  "sorted_wrt key_le (map fst ob) \<Longrightarrow> sorted_wrt key_le (map fst (insert_prop ob k v))"
proof (induction ob k v rule: insert_prop.induct)
  case (1 k v)
  then show ?case by simp
next
  case (2 k' v' ps k v)
  show ?case
  proof (cases "goes_before k k'")
    case True
    have "key_le k k'" using True by (auto simp: goes_before_def key_le_def split: option.splits)
    moreover have "\<forall>x \<in> set (map fst ps). key_le k x"
    proof
      fix x assume "x \<in> set (map fst ps)"
      then have "key_le k' x" using "2.prems" by auto
      then show "key_le k x" using True
        by (auto simp: goes_before_def key_le_def split: option.splits)
    qed
    ultimately show ?thesis using True "2.prems" by auto
  next
    case False
    have "key_le k' k" using False by (auto simp: goes_before_def key_le_def split: option.splits)
    moreover have "sorted_wrt key_le (map fst (insert_prop ps k v))"
      using "2.IH" [OF False] "2.prems" by simp
    moreover have "\<forall>x \<in> fst ` set (insert_prop ps k v). key_le k' x"
      using "2.prems" \<open>key_le k' k\<close> by (auto simp: set_keys_insert_prop)
    ultimately show ?thesis using False by auto
  qed
qed

lemma sorted_set_prop:
  "sorted_wrt key_le (map fst ob) \<Longrightarrow> sorted_wrt key_le (map fst (set_prop ob k v))"
  by (simp add: set_prop_def keys_replace_prop sorted_insert_prop)

lemma sorted_fromEntries: "sorted_wrt key_le (map fst (fromEntries es))"
proof (induction es rule: rev_induct)
  case Nil
  then show ?case by (simp add: fromEntries_def)
next
  case (snoc p es)
  obtain k v where p: "p = (k, v)" by (cases p)
  show ?case using snoc by (simp add: p fromEntries_snoc sorted_set_prop)
qed

lemma filter_nonindex_set_prop:
  "filter (\<lambda>k. array_index k = None) (map fst (set_prop ob k v)) =
   filter (\<lambda>k. array_index k = None) (map fst ob)
     @ (if array_index k = None \<and> k \<notin> fst ` set ob then [k] else [])"
  by (simp add: set_prop_def keys_replace_prop filter_insert_prop)

lemma filter_nonindex_fromEntries:
  "distinct (map fst es) \<Longrightarrow>
   filter (\<lambda>k. array_index k = None) (map fst (fromEntries es)) =
   filter (\<lambda>k. array_index k = None) (map fst es)"
proof (induction es rule: rev_induct)
  case Nil
  then show ?case by (simp add: fromEntries_def)
next
  case (snoc p es)
  obtain k v where p: "p = (k, v)" by (cases p)
  show ?case using snoc
    by (auto simp: p fromEntries_snoc filter_nonindex_set_prop set_keys_fromEntries)
qed

text \<open>The decimal numeral of an item index determines the index.\<close>

lemma digit_val_digit_char: "n < 10 \<Longrightarrow> digit_val (digit_char n) = n"
proof -
  assume "n < 10"
  then have "n \<in> {0, 1, 2, 3, 4, 5, 6, 7, 8, 9}" by auto
  then show ?thesis by (auto simp: digit_val_def digit_char_def)
qed

lemma nat_of_digits_snoc: "nat_of_digits (s @ [c]) = 10 * nat_of_digits s + digit_val c"
  by (simp add: nat_of_digits_def)

lemma nat_of_digits_string_of_nat: "nat_of_digits (string_of_nat n) = n"
proof (induction n rule: string_of_nat.induct)
  case (1 n)
  show ?case
  proof (cases "n < 10")
    case True
    then show ?thesis
      by (subst string_of_nat.simps) (simp add: nat_of_digits_def digit_val_digit_char)
  next
    case False
    then show ?thesis using 1
      by (subst string_of_nat.simps) (simp add: nat_of_digits_snoc digit_val_digit_char)
  qed
qed

lemma string_of_nat_inject: "string_of_nat m = string_of_nat n \<Longrightarrow> m = n"
  by (metis nat_of_digits_string_of_nat)

section \<open>Properties of routing and of the loop\<close>

lemma length_push_branch [simp]: "length (push_branch rd i x) = length rd"
  by (simp add: push_branch_def)

lemma nth_push_branch:
  "j < length rd \<Longrightarrow> push_branch rd i x ! j = rd ! j @ (if j = i then [x] else [])"
  by (simp add: push_branch_def)

lemma length_route_categories [simp]:
  "length (route_categories cs idx out it rd) = length rd"
  by (induction cs arbitrary: idx rd) simp_all

lemma nth_route_categories:
  "j < length rd \<Longrightarrow>
   route_categories cs idx out it rd ! j =
     rd ! j @ (if idx \<le> j \<and> j < idx + length cs \<and> truthy (get_prop out (category (cs ! (j - idx))))
               then [it] else [])"
proof (induction cs arbitrary: idx rd)
  case Nil
  then show ?case by simp
next
  case (Cons c cs)
  let ?rd = "if truthy (get_prop out (category c)) then push_branch rd idx it else rd"
  have len: "j < length ?rd" using Cons.prems by simp
  have step: "?rd ! j = rd ! j @ (if j = idx \<and> truthy (get_prop out (category c)) then [it] else [])"
    using Cons.prems by (simp add: nth_push_branch)
  show ?case
  proof (cases "j = idx")
    case True
    then show ?thesis using Cons.IH [OF len, of "Suc idx"] step by simp
  next
    case False
    then show ?thesis using Cons.IH [OF len, of "Suc idx"] step
      by (auto simp: nth_Cons' Suc_diff_le not_le less_Suc_eq_le)
  qed
qed

lemma length_route [simp]: "length (route cs fb out it rd) = length rd"
  by (simp add: route_def Let_def)

lemma nth_route_category:
  assumes "length rd = length cs + (if fb = Other then 1 else 0)" and "j < length cs"
  shows "route cs fb out it rd ! j =
           rd ! j @ (if truthy (get_prop out (category (cs ! j))) then [it] else [])"
  using assms by (auto simp: route_def Let_def nth_push_branch nth_route_categories)

lemma nth_route_fallback:
  assumes "length rd = Suc (length cs)"
  shows "route cs Other out it rd ! length cs =
           rd ! length cs @ (if truthy (get_prop out ''fallback'') then [it] else [])"
  using assms by (auto simp: route_def Let_def nth_push_branch nth_route_categories)

lemma process_item_missing:
  "inputText cx i = JUndefined \<or> inputText cx i = JNull \<Longrightarrow>
   process_item e cx ch cs fb i it rd lg =
     (if continueOnFail cx
      then (Inr (push_branch rd 0 (error_item ''Text to classify is not defined'' i)), lg)
      else (Inl (NodeOperationError (missing_text_message i)), lg))"
  by (auto simp: process_item_def Let_def)

lemma process_item_classified:
  "inputText cx i \<noteq> JUndefined \<Longrightarrow> inputText cx i \<noteq> JNull \<Longrightarrow>
   chain_invoke e ch cs (inputText cx i) lg = (Inr out, lg') \<Longrightarrow>
   process_item e cx ch cs fb i it rd lg =
     (Inr (route cs fb out (it\<lparr>pairedItem := Some i\<rparr>) rd), lg')"
  by (simp add: process_item_def Let_def)

lemma process_item_failed:
  "inputText cx i \<noteq> JUndefined \<Longrightarrow> inputText cx i \<noteq> JNull \<Longrightarrow>
   chain_invoke e ch cs (inputText cx i) lg = (Inl msg, lg') \<Longrightarrow>
   process_item e cx ch cs fb i it rd lg =
     (if continueOnFail cx then (Inr (push_branch rd 0 (error_item msg i)), lg')
      else (Inl (Rethrown msg), lg'))"
  by (simp add: process_item_def Let_def)

lemma process_item_tolerant:
  "continueOnFail cx \<Longrightarrow> \<exists>rd' lg'. process_item e cx ch cs fb i it rd lg = (Inr rd', lg')"
  by (auto simp: process_item_def Let_def split: prod.splits sum.splits)

lemma process_item_length:
  "process_item e cx ch cs fb i it rd lg = (Inr rd', lg') \<Longrightarrow> length rd' = length rd"
  by (auto simp: process_item_def Let_def split: prod.splits sum.splits if_splits)

lemma route_extends:
  "j < length rd \<Longrightarrow> \<exists>ys. route cs fb out it rd ! j = rd ! j @ ys"
  by (simp add: route_def Let_def nth_push_branch nth_route_categories)

lemma process_item_extends:
  "process_item e cx ch cs fb i it rd lg = (Inr rd', lg') \<Longrightarrow> j < length rd \<Longrightarrow>
   \<exists>ys. rd' ! j = rd ! j @ ys"
  by (auto simp: process_item_def Let_def nth_push_branch route_extends
      split: prod.splits sum.splits if_splits)

lemma process_items_append:
  "process_items e cx ch cs fb i (xs @ ys) rd lg =
     (case process_items e cx ch cs fb i xs rd lg of
        (Inl err, lg') \<Rightarrow> (Inl err, lg')
      | (Inr rd', lg') \<Rightarrow> process_items e cx ch cs fb (i + length xs) ys rd' lg')"
  by (induction xs arbitrary: i rd lg) (auto split: prod.splits sum.splits)

lemma process_items_length:
  "process_items e cx ch cs fb i xs rd lg = (Inr rd', lg') \<Longrightarrow> length rd' = length rd"
proof (induction xs arbitrary: i rd lg)
  case Nil
  then show ?case by simp
next
  case (Cons x xs)
  then show ?case
    by (auto split: prod.splits sum.splits dest: process_item_length)
qed

lemma process_items_extends:
  "process_items e cx ch cs fb i xs rd lg = (Inr rd', lg') \<Longrightarrow> j < length rd \<Longrightarrow>
   \<exists>ys. rd' ! j = rd ! j @ ys"
proof (induction xs arbitrary: i rd lg)
  case Nil
  then show ?case by simp
next
  case (Cons x xs)
  from Cons.prems(1) obtain rd1 lg1 where
    one: "process_item e cx ch cs fb i x rd lg = (Inr rd1, lg1)" and
    more: "process_items e cx ch cs fb (Suc i) xs rd1 lg1 = (Inr rd', lg')"
    by (auto split: prod.splits sum.splits)
  from one Cons.prems(2) obtain ys where ys: "rd1 ! j = rd ! j @ ys"
    using process_item_extends by blast
  have "j < length rd1" using process_item_length [OF one] Cons.prems(2) by simp
  from Cons.IH [OF more this] obtain zs where "rd' ! j = rd1 ! j @ zs" by blast
  with ys show ?case by simp
qed

lemma process_items_tolerant:
  "continueOnFail cx \<Longrightarrow> \<exists>rd' lg'. process_items e cx ch cs fb i xs rd lg = (Inr rd', lg')"
proof (induction xs arbitrary: i rd lg)
  case Nil
  then show ?case by simp
next
  case (Cons x xs)
  from process_item_tolerant [OF Cons.prems] obtain rd1 lg1 where
    "process_item e cx ch cs fb i x rd lg = (Inr rd1, lg1)" by blast
  with Cons.IH [OF Cons.prems, of "Suc i" rd1 lg1] show ?case by simp
qed

subsection \<open>The loop of \<^verbatim>\<open>execute\<close>, iteration by iteration\<close>

lemma build_chain_wellformed:
  "template_error e (system_template opts) = None \<Longrightarrow>
   build_chain e opts cs = Inr (chain_config opts cs)"
  by (simp add: build_chain_def)

lemma build_chain_Inr:
  "build_chain e opts cs = Inr ch \<longleftrightarrow>
   template_error e (system_template opts) = None \<and> ch = chain_config opts cs"
  by (auto simp: build_chain_def split: option.splits)

lemma build_chain_cases:
  obtains msg where "build_chain e opts cs = Inl (TemplateError msg)"
      and "template_error e (system_template opts) = Some msg"
  | "build_chain e opts cs = Inr (chain_config opts cs)"
      and "template_error e (system_template opts) = None"
  by (cases "template_error e (system_template opts)") (auto simp: build_chain_def)

lemma execute_per_item:
  "\<not> loadCategoriesFromInputItems cx \<Longrightarrow> categories_param cx = Some cs \<Longrightarrow> cs \<noteq> [] \<Longrightarrow>
   execute e cx = loop_state e cx cs (length (items cx))"
  by (simp add: execute_def loop_state_def Let_def split: sum.splits)

lemma loop_state_malformed:
  "template_error e (system_template (options_param cx)) = Some msg \<Longrightarrow>
   loop_state e cx cs k = (Inl (TemplateError msg), [])"
  by (simp add: loop_state_def build_chain_def)

lemma loop_state_wellformed:
  "template_error e (system_template (options_param cx)) = None \<Longrightarrow>
   loop_state e cx cs k =
     process_items e cx (chain_config (options_param cx) cs) cs
       (opt_fallback (options_param cx)) 0 (take k (items cx))
       (replicate (length cs + (if opt_fallback (options_param cx) = Other then 1 else 0)) [])
       []"
  by (simp add: loop_state_def build_chain_def)

lemma loop_state_Inr_wellformed:
  "loop_state e cx cs k = (Inr rd, lg) \<Longrightarrow>
   template_error e (system_template (options_param cx)) = None"
  by (cases "template_error e (system_template (options_param cx))")
     (auto simp: loop_state_malformed)

lemma loop_state_0:
  "template_error e (system_template (options_param cx)) = None \<Longrightarrow>
   loop_state e cx cs 0 =
     (Inr (replicate (length cs + (if opt_fallback (options_param cx) = Other then 1 else 0)) []), [])"
  by (simp add: loop_state_wellformed)

lemma loop_state_Suc:
  "k < length (items cx) \<Longrightarrow>
   loop_state e cx cs (Suc k) =
     (case loop_state e cx cs k of
        (Inl err, lg) \<Rightarrow> (Inl err, lg)
      | (Inr rd, lg) \<Rightarrow>
          process_item e cx (chain_config (options_param cx) cs) cs
            (opt_fallback (options_param cx)) k (items cx ! k) rd lg)"
proof (cases rule: build_chain_cases [of e "options_param cx" cs])
  case (1 msg)
  then show ?thesis by (simp add: loop_state_malformed)
next
  case 2
  assume "k < length (items cx)"
  then show ?thesis using 2(2)
    by (simp add: loop_state_wellformed take_Suc_conv_app_nth process_items_append
        split: prod.splits sum.splits)
qed

lemma process_items_take_split:
  assumes "k \<le> m" and "m \<le> length xs"
  shows "process_items e cx ch cs fb 0 (take m xs) rd lg =
     (case process_items e cx ch cs fb 0 (take k xs) rd lg of
        (Inl err, lg') \<Rightarrow> (Inl err, lg')
      | (Inr rd', lg') \<Rightarrow> process_items e cx ch cs fb k (drop k (take m xs)) rd' lg')"
proof -
  have eq: "take k xs @ drop k (take m xs) = take m xs"
    using assms(1) by (metis append_take_drop_id min.absorb1 take_take)
  have len: "0 + length (take k xs) = k" using assms by simp
  show ?thesis
    using process_items_append [of e cx ch cs fb 0 "take k xs" "drop k (take m xs)" rd lg]
    unfolding eq len .
qed

lemma loop_state_split:
  assumes "k \<le> m" and "m \<le> length (items cx)"
  shows "loop_state e cx cs m =
     (case loop_state e cx cs k of
        (Inl err, lg) \<Rightarrow> (Inl err, lg)
      | (Inr rd, lg) \<Rightarrow>
          process_items e cx (chain_config (options_param cx) cs) cs
            (opt_fallback (options_param cx)) k (drop k (take m (items cx))) rd lg)"
proof (cases rule: build_chain_cases [of e "options_param cx" cs])
  case (1 msg)
  then show ?thesis by (simp add: loop_state_malformed)
next
  case 2
  show ?thesis
    unfolding loop_state_wellformed [OF 2(2)] by (rule process_items_take_split [OF assms])
qed

lemma loop_state_length:
  "loop_state e cx cs k = (Inr rd, lg) \<Longrightarrow>
   length rd = length cs + (if opt_fallback (options_param cx) = Other then 1 else 0)"
proof -
  assume st: "loop_state e cx cs k = (Inr rd, lg)"
  from st have "template_error e (system_template (options_param cx)) = None"
    by (rule loop_state_Inr_wellformed)
  from st [unfolded loop_state_wellformed [OF this]] show ?thesis
    by (auto dest: process_items_length)
qed

lemma loop_state_abort:
  "k \<le> m \<Longrightarrow> m \<le> length (items cx) \<Longrightarrow> loop_state e cx cs k = (Inl err, lg) \<Longrightarrow> loop_state e cx cs m = (Inl err, lg)"
  by (simp add: loop_state_split [of k m])

lemma loop_state_extends:
  assumes "k \<le> m" and "m \<le> length (items cx)" and "loop_state e cx cs k = (Inr rd, lg)"
    and "loop_state e cx cs m = (Inr rd', lg')" and "j < length rd"
  shows "\<exists>ys. rd' ! j = rd ! j @ ys"
proof -
  from assms(1-4) have
    "process_items e cx (chain_config (options_param cx) cs) cs
        (opt_fallback (options_param cx)) k
        (drop k (take m (items cx))) rd lg = (Inr rd', lg')"
    by (simp add: loop_state_split [of k m])
  from process_items_extends [OF this assms(5)] show ?thesis .
qed

lemma loop_state_tolerant:
  "template_error e (system_template (options_param cx)) = None \<Longrightarrow> continueOnFail cx \<Longrightarrow>
   \<exists>rd lg. loop_state e cx cs k = (Inr rd, lg)"
  by (simp add: loop_state_wellformed process_items_tolerant)

lemma chain_invoke_unrendered:
  "render_error e (chain_request e ch cs input) = Some err \<Longrightarrow>
   chain_invoke e ch cs input lg = (Inl err, lg)"
  by (simp add: chain_invoke_def)

lemma chain_invoke_log:
  "render_error e (chain_request e ch cs input) = None \<Longrightarrow>
   \<exists>ext. snd (chain_invoke e ch cs input lg) = lg @ chain_request e ch cs input # ext"
  by (auto simp: chain_invoke_def call_llm_def fixing_parse_def split: sum.splits prod.splits)

lemma chain_invoke_answer_rendered:
  "chain_invoke e ch cs input lg = (Inr out, lg') \<Longrightarrow>
   render_error e (chain_request e ch cs input) = None"
  by (cases "render_error e (chain_request e ch cs input)") (auto simp: chain_invoke_def)

lemma chain_invoke_answer_log:
  "chain_invoke e ch cs input lg = (Inr out, lg') \<Longrightarrow>
   \<exists>ext. lg' = lg @ chain_request e ch cs input # ext"
  using chain_invoke_log [OF chain_invoke_answer_rendered, of e ch cs input lg out lg' lg]
  by simp

lemma chain_invoke_log_plain:
  "\<not> chain_autofix ch \<Longrightarrow> chain_invoke e ch cs input lg = (Inr out, lg') \<Longrightarrow>
   lg' = lg @ [chain_request e ch cs input]"
  by (auto simp: chain_invoke_def call_llm_def split: sum.splits prod.splits option.splits)

lemma push_branch_0: "0 < length rd \<Longrightarrow> push_branch rd 0 x = rd[0 := rd ! 0 @ [x]]"
  by (simp add: push_branch_def)

lemma in_push_branch_0: "0 < length rd \<Longrightarrow> x \<in> set (push_branch rd 0 x ! 0)"
  by (simp add: push_branch_def)

subsection \<open>Evaluating the example configurations\<close>

lemma default_template_prefix:
  "systemPromptTemplate opts = None \<Longrightarrow> take 5 (system_template opts) = ''Pleas''"
  "systemPromptTemplate opts = None \<Longrightarrow> take 14 (system_template opts) = ''Please classif''"
  by (simp_all add: system_template_def SYSTEM_PROMPT_TEMPLATE_def)

lemma own_template_prefix:
  "systemPromptTemplate opts = Some t \<Longrightarrow> n \<le> length t \<Longrightarrow>
   take n (system_template opts) = take n t"
  by (simp add: system_template_def)

lemmas ex_eval =
  ex_cats_def ex_env_def ex_opts_def ex_ctx_def ex_ctx_template_def
  default_template_prefix own_template_prefix
  chain_invoke_def call_llm_def structured_parse_def fixing_parse_def chain_request_def
  build_chain_def chain_config_def build_schema_def schemaEntries_def fromEntries_def
  set_prop_def goes_before_def array_index_def is_digit_def opt_fallback_def opt_autofix_def
  get_prop_def

section \<open>Properties of parsing, loading and the schema\<close>

lemmas ex_run =
  execute_def loop_state_def process_item_def route_def push_branch_def error_item_def Let_def

lemma missing_text_message_inject:
  "missing_text_message k' = missing_text_message k \<Longrightarrow> k' = k"
  by (simp add: missing_text_message_def string_of_nat_inject)

lemma map_of_rev_distinct: "distinct (map fst xs) \<Longrightarrow> map_of (rev xs) = map_of xs"
  by (subst map_of_inject_set) (simp_all add: rev_map [symmetric])

lemma structured_parse_keys:
  "structured_parse e sch raw = Inr ans \<Longrightarrow> map fst ans = map fst sch"
  by (auto simp: structured_parse_def split: sum.splits)

lemma chain_invoke_keys:
  "chain_invoke e ch cs input lg = (Inr ans, lg') \<Longrightarrow> map fst ans = map fst (chain_schema ch)"
  by (auto simp: chain_invoke_def call_llm_def fixing_parse_def
      split: sum.splits prod.splits if_splits option.splits dest: structured_parse_keys)

lemma load_categories_length:
  "load_categories idx xs = Inr cs \<Longrightarrow> length cs = length xs"
  by (induction xs arbitrary: idx cs) (auto simp: Let_def split: if_splits sum.splits)

lemma get_prop_merged:
  assumes "distinct (map fst ans)"
  shows "get_prop (fromEntries (ans @ [(k, v)])) k' = (if k' = k then v else get_prop ans k')"
  using assms by (simp add: get_prop_def map_of_fromEntries map_of_rev_distinct)

lemma load_categories_empty: "load_categories idx xs = Inr [] \<longleftrightarrow> xs = []"
  using load_categories_length [of idx xs "[]"] by auto

lemma keys_schemaEntries:
  "map fst (schemaEntries cats fb) =
     map category cats @ (if fb = Other then [''fallback''] else [])"
  by (simp add: schemaEntries_def comp_def)

lemma array_index_fallback [simp]: "array_index ''fallback'' = None"
  by (simp add: array_index_def is_digit_def)

lemma set_keys_build_schema:
  "set (keys (build_schema cats fb)) =
     set (map category cats) \<union> (if fb = Other then {''fallback''} else {})"
proof -
  have "set (keys (build_schema cats fb)) = fst ` set (schemaEntries cats fb)"
    by (simp add: keys_def build_schema_def set_keys_fromEntries)
  also have "\<dots> = set (map fst (schemaEntries cats fb))" by simp
  finally show ?thesis by (simp only: keys_schemaEntries) auto
qed

lemma distinct_keys_build_schema: "distinct (keys (build_schema cats fb))"
  by (simp add: keys_def build_schema_def distinct_keys_fromEntries)

lemma length_build_schema:
  "length (build_schema cats fb) =
     card (set (map category cats) \<union> (if fb = Other then {''fallback''} else {}))"
proof -
  have "length (build_schema cats fb) = length (keys (build_schema cats fb))"
    by (simp add: keys_def)
  also have "\<dots> = card (set (keys (build_schema cats fb)))"
    using distinct_keys_build_schema by (simp add: distinct_card)
  finally show ?thesis by (simp only: set_keys_build_schema)
qed

lemma map_of_build_schema_fallback:
  "map_of (build_schema cats Other) ''fallback'' =
     Some ''Should be true if none of the other categories apply''"
  by (simp add: build_schema_def map_of_fromEntries schemaEntries_def)

lemma map_of_schemaEntries_category:
  assumes "distinct (map fst (schemaEntries cats fb))" and "c \<in> set cats"
  shows "map_of (build_schema cats fb) (category c) = Some (field_description c)"
proof -
  have "(category c, field_description c) \<in> set (schemaEntries cats fb)"
    using assms(2) by (auto simp: schemaEntries_def)
  then have "map_of (schemaEntries cats fb) (category c) = Some (field_description c)"
    using assms(1) by simp
  then show ?thesis
    using assms(1) by (simp add: build_schema_def map_of_fromEntries map_of_rev_distinct)
qed




lemma map_of_rev_entries_last:
  "name \<in> category ` set cats \<Longrightarrow>
   map_of (rev (map (\<lambda>c. (category c, field_description c)) cats)) name =
     Some (field_description (last (filter (\<lambda>c. category c = name) cats)))"
proof (induction cats rule: rev_induct)
  case Nil
  then show ?case by simp
next
  case (snoc x xs)
  show ?case
  proof (cases "category x = name")
    case True
    then show ?thesis by simp
  next
    case False
    then have "name \<in> category ` set xs" using snoc.prems by auto
    from snoc.IH [OF this] False show ?thesis by simp
  qed
qed

lemma build_schema_duplicates_smaller:
  assumes "\<not> distinct (map category cats)"
  shows "length (build_schema cats fb) < length cats + (if fb = Other then 1 else 0)"
proof -
  let ?F = "if fb = Other then {''fallback''} else {}"
  have "card (set (map category cats)) \<noteq> length (map category cats)"
    using assms card_distinct by blast
  moreover have "card (set (map category cats)) \<le> length (map category cats)"
    by (rule card_length)
  ultimately have small: "card (set (map category cats)) < length cats" by simp
  have "length (build_schema cats fb) = card (set (map category cats) \<union> ?F)"
    by (rule length_build_schema)
  also have "\<dots> \<le> card (set (map category cats)) + card ?F" by (rule card_Un_le)
  also have "\<dots> < length cats + (if fb = Other then 1 else 0)" using small by simp
  finally show ?thesis .
qed

lemma map_of_build_schema_category:
  assumes c: "c \<in> set cats" and nf: "fb = Other \<longrightarrow> category c \<noteq> ''fallback''"
  shows "map_of (build_schema cats fb) (category c) =
           Some (field_description (last (filter (\<lambda>c'. category c' = category c) cats)))"
proof -
  have inn: "category c \<in> category ` set cats" using c by simp
  show ?thesis
  proof (cases "fb = Other")
    case True
    then have "category c \<noteq> ''fallback''" using nf by simp
    then show ?thesis using True map_of_rev_entries_last [OF inn]
      by (simp add: build_schema_def schemaEntries_def map_of_fromEntries)
  next
    case False
    then show ?thesis using map_of_rev_entries_last [OF inn]
      by (simp add: build_schema_def schemaEntries_def map_of_fromEntries)
  qed
qed

section \<open>Runs of the example configurations\<close>

text \<open>
  A malformed system prompt template stops the run before the loop, also with
  \<^verbatim>\<open>continueOnFail\<close> on. A bug report goes to the first branch only, a feature request
  to the second only, and with auto-fixing enabled a rejected answer costs one repair
  call.
\<close>

lemma scenario_malformed_template:
  "execute ex_env (ex_ctx_template ''a } b'' [JStr ''Bug''] True) =
     (Inl (TemplateError ''Single } in template''), [])"
  by (simp add: ex_run ex_eval)

lemma scenario_bug_report:
  "fst (execute ex_env (ex_ctx ex_cats [JStr ''Bug''] Other False)) =
     Inr [[\<lparr> json = [(''text'', JStr ''Bug'')], pairedItem = Some 0 \<rparr>], [], []]"
  by (simp add: ex_run ex_eval)

lemma scenario_feature_request:
  "fst (execute ex_env
          ((ex_ctx ex_cats [JStr ''Feature''] Other False)
             \<lparr> options_param := (ex_opts Other) \<lparr> multiClass := Some True \<rparr> \<rparr>)) =
     Inr [[], [\<lparr> json = [(''text'', JStr ''Feature'')], pairedItem = Some 0 \<rparr>], []]"
  by (simp add: ex_run ex_eval)

lemma scenario_repair_pass:
  "execute ex_env
     ((ex_ctx ex_cats [JStr ''?''] Other False)
        \<lparr> options_param := (ex_opts Other) \<lparr> enableAutoFixing := Some True \<rparr> \<rparr>) =
     (Inr [[], [], [\<lparr> json = [(''text'', JStr ''?'')], pairedItem = Some 0 \<rparr>]],
      [Classify (system_template ((ex_opts Other) \<lparr> enableAutoFixing := Some True \<rparr>))
         ''Bug, Feature'' ''FORMAT'' (JStr ''?''),
       Repair ''FORMAT'' ''?'' ''cannot parse''])"
  by (simp add: ex_run ex_eval)

section \<open>Claims\<close>

subsection \<open>C1: Routing of a classified item\<close>

text \<open>
  Claim C1. In per-item mode, when the loop reaches item \<open>k\<close> with the branches \<open>rd\<close>
  and the classification of the item succeeds with the answer \<open>out\<close>, the next state of
  the loop has the item (with its origin \<open>k\<close>) appended to the branch of every category
  whose answer field is true, and to no other category branch; under the policy \<open>Other\<close>
  the trailing branch receives the item exactly when the answer's \<open>fallback\<close> field is
  true. Whatever the run returns extends these branches. Nothing depends on
  \<open>multiClass\<close>: several true fields place the item on each of their branches.
\<close>

theorem router_appends_to_every_true_branch:
  assumes mode: "\<not> loadCategoriesFromInputItems cx" "categories_param cx = Some cats" "cats \<noteq> []"
    and k: "k < length (items cx)"
    and reached: "loop_state e cx cats k = (Inr rd, lg)"
    and present: "inputText cx k \<noteq> JUndefined" "inputText cx k \<noteq> JNull"
    and ok: "chain_invoke e (chain_config (options_param cx) cats) cats (inputText cx k) lg
               = (Inr out, lg')"
  shows "\<exists>rd'. loop_state e cx cats (Suc k) = (Inr rd', lg')
           \<and> (\<forall>j<length cats.
                 rd' ! j = rd ! j @ (if truthy (get_prop out (category (cats ! j)))
                                     then [(items cx ! k)\<lparr>pairedItem := Some k\<rparr>] else []))
           \<and> (opt_fallback (options_param cx) = Other \<longrightarrow>
                 rd' ! length cats = rd ! length cats @ (if truthy (get_prop out ''fallback'')
                                     then [(items cx ! k)\<lparr>pairedItem := Some k\<rparr>] else []))
           \<and> (\<forall>final lgf. execute e cx = (Inr final, lgf) \<longrightarrow>
                 (\<forall>j<length rd'. \<exists>more. final ! j = rd' ! j @ more))"
proof -
  let ?it = "(items cx ! k)\<lparr>pairedItem := Some k\<rparr>"
  let ?fb = "opt_fallback (options_param cx)"
  let ?rd' = "route cats ?fb out ?it rd"
  have len: "length rd = length cats + (if ?fb = Other then 1 else 0)"
    using loop_state_length [OF reached] .
  have step: "loop_state e cx cats (Suc k) = (Inr ?rd', lg')"
    using k reached by (simp add: loop_state_Suc process_item_classified [OF present ok])
  have cat: "\<forall>j<length cats.
      ?rd' ! j = rd ! j @ (if truthy (get_prop out (category (cats ! j))) then [?it] else [])"
    using nth_route_category [OF len] by blast
  have fb: "?fb = Other \<longrightarrow>
      ?rd' ! length cats = rd ! length cats @ (if truthy (get_prop out ''fallback'') then [?it] else [])"
    using len nth_route_fallback [of rd cats out ?it] by auto
  have fin: "\<forall>final lgf. execute e cx = (Inr final, lgf) \<longrightarrow>
                 (\<forall>j<length ?rd'. \<exists>more. final ! j = ?rd' ! j @ more)"
  proof (intro allI impI)
    fix final lgf j
    assume ex: "execute e cx = (Inr final, lgf)" and j: "j < length ?rd'"
    have "loop_state e cx cats (length (items cx)) = (Inr final, lgf)"
      using ex execute_per_item [OF mode] by simp
    from loop_state_extends [OF _ _ step this j] k
    show "\<exists>more. final ! j = ?rd' ! j @ more" by simp
  qed
  from step cat fb fin show ?thesis by blast
qed

theorem router_appends_to_every_true_branch_witness:
  "multiClass (options_param (ex_ctx ex_cats [JStr ''*''] Other False)) = Some False
   \<and> (\<exists>rd'. fst (loop_state ex_env (ex_ctx ex_cats [JStr ''*''] Other False) ex_cats (Suc 0)) = Inr rd'
          \<and> rd' ! 0 = [\<lparr> json = [(''text'', JStr ''*'')], pairedItem = Some 0 \<rparr>]
          \<and> rd' ! 1 = [\<lparr> json = [(''text'', JStr ''*'')], pairedItem = Some 0 \<rparr>]
          \<and> rd' ! 2 = [\<lparr> json = [(''text'', JStr ''*'')], pairedItem = Some 0 \<rparr>])"
proof -
  let ?cx = "ex_ctx ex_cats [JStr ''*''] Other False"
  let ?out = "[(''Bug'', JBool True), (''Feature'', JBool True), (''fallback'', JBool True)]"
  let ?lg = "[chain_request ex_env (chain_config (options_param ?cx) ex_cats) ex_cats (JStr ''*'')]"
  have h1: "\<not> loadCategoriesFromInputItems ?cx" by (simp add: ex_ctx_def)
  have h2: "categories_param ?cx = Some ex_cats" by (simp add: ex_ctx_def)
  have h3: "ex_cats \<noteq> []" by (simp add: ex_cats_def)
  have h4: "0 < length (items ?cx)" by (simp add: ex_ctx_def)
  have h5: "loop_state ex_env ?cx ex_cats 0 = (Inr [[], [], []], [])"
    by (simp add: loop_state_def ex_eval)
  have h6: "inputText ?cx 0 \<noteq> JUndefined" by (simp add: ex_ctx_def)
  have h7: "inputText ?cx 0 \<noteq> JNull" by (simp add: ex_ctx_def)
  have h8: "chain_invoke ex_env (chain_config (options_param ?cx) ex_cats) ex_cats (inputText ?cx 0) []
              = (Inr ?out, ?lg)"
    by (simp add: ex_eval)
  from router_appends_to_every_true_branch [OF h1 h2 h3 h4 h5 h6 h7 h8]
  obtain rd' where
    st: "loop_state ex_env ?cx ex_cats (Suc 0) = (Inr rd', ?lg)" and
    br: "\<forall>j<length ex_cats.
        rd' ! j = [[], [], []] ! j @ (if truthy (get_prop ?out (category (ex_cats ! j)))
                                     then [(items ?cx ! 0)\<lparr>pairedItem := Some 0\<rparr>] else [])" and
    fb: "opt_fallback (options_param ?cx) = Other \<longrightarrow>
        rd' ! length ex_cats = [[], [], []] ! length ex_cats @ (if truthy (get_prop ?out ''fallback'')
                                     then [(items ?cx ! 0)\<lparr>pairedItem := Some 0\<rparr>] else [])"
    by blast
  have b0: "rd' ! 0 = [\<lparr> json = [(''text'', JStr ''*'')], pairedItem = Some 0 \<rparr>]"
    using br [rule_format, of 0] by (simp add: ex_cats_def ex_ctx_def get_prop_def)
  have b1: "rd' ! 1 = [\<lparr> json = [(''text'', JStr ''*'')], pairedItem = Some 0 \<rparr>]"
    using br [rule_format, of 1] by (simp add: ex_cats_def ex_ctx_def get_prop_def)
  have b2: "rd' ! 2 = [\<lparr> json = [(''text'', JStr ''*'')], pairedItem = Some 0 \<rparr>]"
    using fb by (simp add: ex_cats_def ex_ctx_def ex_opts_def opt_fallback_def get_prop_def numeral_2_eq_2)
  have "fst (loop_state ex_env ?cx ex_cats (Suc 0)) = Inr rd'" using st by simp
  with b0 b1 b2 have "fst (loop_state ex_env ?cx ex_cats (Suc 0)) = Inr rd'
      \<and> rd' ! 0 = [\<lparr> json = [(''text'', JStr ''*'')], pairedItem = Some 0 \<rparr>]
      \<and> rd' ! 1 = [\<lparr> json = [(''text'', JStr ''*'')], pairedItem = Some 0 \<rparr>]
      \<and> rd' ! 2 = [\<lparr> json = [(''text'', JStr ''*'')], pairedItem = Some 0 \<rparr>]"
    by blast
  moreover have "multiClass (options_param ?cx) = Some False" by (simp add: ex_ctx_def ex_opts_def)
  ultimately show ?thesis by blast
qed

subsection \<open>C2: Fields of the schema\<close>

text \<open>
  Claim C2, as amended. For a category set whose names are pairwise distinct and, under
  the policy \<open>Other\<close>, not \<^verbatim>\<open>fallback\<close>, the schema has exactly one field per category,
  keyed by its name and carrying its description, and under \<open>Other\<close> one more field
  keyed \<^verbatim>\<open>fallback\<close>: \<open>|C| + 1\<close> fields under \<open>Other\<close>, \<open>|C|\<close> under \<open>Discard\<close>. The
  fields whose names are not array indices follow the order of the category set, with
  \<^verbatim>\<open>fallback\<close> last; names that are array indices come first, in ascending order. When
  no name is an array index the field order is the order of the category set.
\<close>

theorem schema_fields_of_distinct_names:
  assumes names: "distinct (map category cats)"
    and nofb: "fb = Other \<longrightarrow> ''fallback'' \<notin> set (map category cats)"
  shows "length (build_schema cats fb) = length cats + (if fb = Other then 1 else 0)
     \<and> set (keys (build_schema cats fb)) =
         set (map category cats) \<union> (if fb = Other then {''fallback''} else {})
     \<and> (\<forall>c \<in> set cats. map_of (build_schema cats fb) (category c) = Some (field_description c))
     \<and> (fb = Other \<longrightarrow> map_of (build_schema cats fb) ''fallback'' =
            Some ''Should be true if none of the other categories apply'')
     \<and> filter (\<lambda>k. array_index k = None) (keys (build_schema cats fb)) =
         filter (\<lambda>k. array_index k = None)
           (map category cats @ (if fb = Other then [''fallback''] else []))
     \<and> sorted_wrt key_le (keys (build_schema cats fb))
     \<and> ((\<forall>c \<in> set cats. array_index (category c) = None) \<longrightarrow>
           keys (build_schema cats fb) =
             map category cats @ (if fb = Other then [''fallback''] else []))"
proof -
  have d: "distinct (map fst (schemaEntries cats fb))"
    using names nofb by (simp only: keys_schemaEntries) auto
  have len: "length (build_schema cats fb) = length cats + (if fb = Other then 1 else 0)"
  proof -
    have "length (build_schema cats fb) = card (set (map fst (schemaEntries cats fb)))"
      by (simp add: build_schema_def length_fromEntries)
    also have "\<dots> = length (map fst (schemaEntries cats fb))"
      using d by (rule distinct_card)
    finally show ?thesis by (simp add: schemaEntries_def)
  qed
  have descr: "\<forall>c \<in> set cats. map_of (build_schema cats fb) (category c) = Some (field_description c)"
    using map_of_schemaEntries_category [OF d] by blast
  have fbd: "fb = Other \<longrightarrow> map_of (build_schema cats fb) ''fallback'' =
            Some ''Should be true if none of the other categories apply''"
    using map_of_build_schema_fallback by simp
  have plain: "filter (\<lambda>k. array_index k = None) (keys (build_schema cats fb)) =
         filter (\<lambda>k. array_index k = None)
           (map category cats @ (if fb = Other then [''fallback''] else []))"
    using filter_nonindex_fromEntries [OF d]
    by (simp only: keys_def build_schema_def keys_schemaEntries)
  have ord: "sorted_wrt key_le (keys (build_schema cats fb))"
    by (simp add: keys_def build_schema_def sorted_fromEntries)
  have same: "keys (build_schema cats fb) =
             map category cats @ (if fb = Other then [''fallback''] else [])"
    if "\<forall>c \<in> set cats. array_index (category c) = None"
  proof -
    have "\<forall>k \<in> fst ` set (schemaEntries cats fb). array_index k = None"
      using that by (auto simp: schemaEntries_def)
    from fromEntries_plain [OF d this] show ?thesis
      by (simp only: keys_def build_schema_def keys_schemaEntries)
  qed
  from len set_keys_build_schema descr fbd plain ord same show ?thesis by blast
qed

theorem schema_fields_of_distinct_names_witness:
  "length (build_schema ex_cats Other) = 3
   \<and> keys (build_schema ex_cats Other) = [''Bug'', ''Feature'', ''fallback'']
   \<and> length (build_schema ex_cats Discard) = 2
   \<and> keys (build_schema ex_cats Discard) = [''Bug'', ''Feature'']"
proof -
  have h1: "distinct (map category ex_cats)" by (simp add: ex_cats_def)
  have h2: "fb = Other \<longrightarrow> ''fallback'' \<notin> set (map category ex_cats)" for fb
    by (simp add: ex_cats_def)
  have h3: "\<forall>c \<in> set ex_cats. array_index (category c) = None"
    by (simp add: ex_cats_def array_index_def is_digit_def)
  from schema_fields_of_distinct_names [OF h1 h2, of Other]
       schema_fields_of_distinct_names [OF h1 h2, of Discard] h3
  show ?thesis by (simp add: ex_cats_def)
qed

text \<open>
  Claim C2 as stated fails on three kinds of category sets: a category named
  \<^verbatim>\<open>fallback\<close> under the policy \<open>Other\<close> (one field for one category, not two), two
  categories of the same name (one field, not two), and a name that is an array index
  (the field \<^verbatim>\<open>1\<close> precedes the field \<^verbatim>\<open>b\<close> of the category before it).
\<close>

theorem schema_field_count_counterexample:
  "length (build_schema [\<lparr> category = ''fallback'', description = ''other things'' \<rparr>] Other) = 1
   \<and> length (build_schema [\<lparr> category = ''A'', description = ''first'' \<rparr>,
                             \<lparr> category = ''A'', description = ''second'' \<rparr>] Discard) = 1
   \<and> keys (build_schema [\<lparr> category = ''b'', description = ''letter'' \<rparr>,
                           \<lparr> category = ''1'', description = ''number'' \<rparr>] Discard) = [''1'', ''b'']"
  by (simp add: keys_def build_schema_def schemaEntries_def fromEntries_def set_prop_def
      goes_before_def array_index_def is_digit_def nat_of_digits_def digit_val_def)

subsection \<open>C3: Failure-tolerant runs\<close>

text \<open>
  Claim C3. In per-item mode with \<^verbatim>\<open>continueOnFail\<close> on, a run that enters its loop (the
  categories are not empty and the system prompt template is well-formed) returns its
  branches whatever fails for single items. The loop reaches every item \<open>k\<close> without an
  error. If the text of the item is \<^verbatim>\<open>undefined\<close> or \<^verbatim>\<open>null\<close>, or its classification
  fails with a message, an error record with the origin \<open>k\<close> is appended to branch 0,
  the other branches stay as they are, and the record is on branch 0 of the result. An
  item whose classification succeeds is appended, with its origin, to the branch of every
  category whose answer field is true and to no other category branch, and under the
  policy \<open>Other\<close> to the trailing branch exactly when the \<open>fallback\<close> field is true; it
  is on those branches of the result.
\<close>

theorem tolerant_run_never_raises:
  assumes mode: "\<not> loadCategoriesFromInputItems cx" "categories_param cx = Some cats" "cats \<noteq> []"
    and built: "template_error e (system_template (options_param cx)) = None"
    and tol: "continueOnFail cx"
  shows "\<exists>final lgf. execute e cx = (Inr final, lgf)
     \<and> length final = length cats + (if opt_fallback (options_param cx) = Other then 1 else 0)
     \<and> (\<forall>k<length (items cx). \<exists>rd lg. loop_state e cx cats k = (Inr rd, lg)
          \<and> (if inputText cx k = JUndefined \<or> inputText cx k = JNull
              then loop_state e cx cats (Suc k) =
                     (Inr (rd[0 := rd ! 0 @ [\<lparr> json = [(''error'', JStr ''Text to classify is not defined'')],
                                                pairedItem = Some k \<rparr>]]), lg)
                   \<and> \<lparr> json = [(''error'', JStr ''Text to classify is not defined'')],
                        pairedItem = Some k \<rparr> \<in> set (final ! 0)
              else (case chain_invoke e (chain_config (options_param cx) cats) cats
                           (inputText cx k) lg of
                      (Inl msg, lg') \<Rightarrow>
                        loop_state e cx cats (Suc k) =
                          (Inr (rd[0 := rd ! 0 @ [\<lparr> json = [(''error'', JStr msg)],
                                                     pairedItem = Some k \<rparr>]]), lg')
                        \<and> \<lparr> json = [(''error'', JStr msg)], pairedItem = Some k \<rparr> \<in> set (final ! 0)
                    | (Inr out, lg') \<Rightarrow>
                        (\<exists>rd'. loop_state e cx cats (Suc k) = (Inr rd', lg')
                           \<and> (\<forall>j<length cats.
                                 rd' ! j = rd ! j @ (if truthy (get_prop out (category (cats ! j)))
                                                     then [(items cx ! k)\<lparr>pairedItem := Some k\<rparr>]
                                                     else [])
                                 \<and> (truthy (get_prop out (category (cats ! j))) \<longrightarrow>
                                      (items cx ! k)\<lparr>pairedItem := Some k\<rparr> \<in> set (final ! j)))
                           \<and> (opt_fallback (options_param cx) = Other \<longrightarrow>
                                 rd' ! length cats =
                                   rd ! length cats @ (if truthy (get_prop out ''fallback'')
                                                       then [(items cx ! k)\<lparr>pairedItem := Some k\<rparr>]
                                                       else [])
                                 \<and> (truthy (get_prop out ''fallback'') \<longrightarrow>
                                      (items cx ! k)\<lparr>pairedItem := Some k\<rparr>
                                        \<in> set (final ! length cats)))))))"
proof -
  let ?n = "length (items cx)"
  let ?ch = "chain_config (options_param cx) cats"
  let ?fb = "opt_fallback (options_param cx)"
  from loop_state_tolerant [OF built tol] obtain final lgf where
    fin: "loop_state e cx cats ?n = (Inr final, lgf)" by blast
  have ex: "execute e cx = (Inr final, lgf)" using fin execute_per_item [OF mode] by simp
  have flen: "length final = length cats + (if ?fb = Other then 1 else 0)"
    using loop_state_length [OF fin] .
  have each: "\<exists>rd lg. loop_state e cx cats k = (Inr rd, lg)
          \<and> (if inputText cx k = JUndefined \<or> inputText cx k = JNull
              then loop_state e cx cats (Suc k) =
                     (Inr (rd[0 := rd ! 0 @ [\<lparr> json = [(''error'', JStr ''Text to classify is not defined'')],
                                                pairedItem = Some k \<rparr>]]), lg)
                   \<and> \<lparr> json = [(''error'', JStr ''Text to classify is not defined'')],
                        pairedItem = Some k \<rparr> \<in> set (final ! 0)
              else (case chain_invoke e ?ch cats (inputText cx k) lg of
                      (Inl msg, lg') \<Rightarrow>
                        loop_state e cx cats (Suc k) =
                          (Inr (rd[0 := rd ! 0 @ [\<lparr> json = [(''error'', JStr msg)],
                                                     pairedItem = Some k \<rparr>]]), lg')
                        \<and> \<lparr> json = [(''error'', JStr msg)], pairedItem = Some k \<rparr> \<in> set (final ! 0)
                    | (Inr out, lg') \<Rightarrow>
                        (\<exists>rd'. loop_state e cx cats (Suc k) = (Inr rd', lg')
                           \<and> (\<forall>j<length cats.
                                 rd' ! j = rd ! j @ (if truthy (get_prop out (category (cats ! j)))
                                                     then [(items cx ! k)\<lparr>pairedItem := Some k\<rparr>]
                                                     else [])
                                 \<and> (truthy (get_prop out (category (cats ! j))) \<longrightarrow>
                                      (items cx ! k)\<lparr>pairedItem := Some k\<rparr> \<in> set (final ! j)))
                           \<and> (?fb = Other \<longrightarrow>
                                 rd' ! length cats =
                                   rd ! length cats @ (if truthy (get_prop out ''fallback'')
                                                       then [(items cx ! k)\<lparr>pairedItem := Some k\<rparr>]
                                                       else [])
                                 \<and> (truthy (get_prop out ''fallback'') \<longrightarrow>
                                      (items cx ! k)\<lparr>pairedItem := Some k\<rparr>
                                        \<in> set (final ! length cats))))))"
    if k: "k < ?n" for k
  proof -
    let ?it = "(items cx ! k)\<lparr>pairedItem := Some k\<rparr>"
    from loop_state_tolerant [OF built tol] obtain rd lg where
      st: "loop_state e cx cats k = (Inr rd, lg)" by blast
    have len: "length rd = length cats + (if ?fb = Other then 1 else 0)"
      using loop_state_length [OF st] .
    have pos: "0 < length rd" using len mode(3) by simp
    have later: "\<exists>more. final ! j = rd' ! j @ more"
      if nxt: "loop_state e cx cats (Suc k) = (Inr rd', lg')" and j: "j < length rd'"
      for rd' lg' j
      using loop_state_extends [OF _ _ nxt fin j] k by simp
    have stay: "x \<in> set (final ! 0)"
      if nxt: "loop_state e cx cats (Suc k) = (Inr (rd[0 := rd ! 0 @ [x]]), lg')" for x lg'
    proof -
      from later [OF nxt, of 0] pos
      obtain more where "final ! 0 = (rd[0 := rd ! 0 @ [x]]) ! 0 @ more" by auto
      then show ?thesis using pos by simp
    qed
    show ?thesis
    proof (cases "inputText cx k = JUndefined \<or> inputText cx k = JNull")
      case True
      have "loop_state e cx cats (Suc k) =
              (Inr (rd[0 := rd ! 0 @ [error_item ''Text to classify is not defined'' k]]), lg)"
        using k st tol pos by (simp add: loop_state_Suc process_item_missing [OF True] push_branch_0)
      then show ?thesis using True st stay by (auto simp: error_item_def)
    next
      case False
      then have present: "inputText cx k \<noteq> JUndefined" "inputText cx k \<noteq> JNull" by auto
      obtain res lg' where inv: "chain_invoke e ?ch cats (inputText cx k) lg = (res, lg')"
        by (cases "chain_invoke e ?ch cats (inputText cx k) lg")
      show ?thesis
      proof (cases res)
        case (Inl msg)
        have "loop_state e cx cats (Suc k) = (Inr (rd[0 := rd ! 0 @ [error_item msg k]]), lg')"
          using k st tol pos inv Inl
          by (simp add: loop_state_Suc process_item_failed [OF present] push_branch_0)
        then show ?thesis using False st stay inv Inl by (auto simp: error_item_def)
      next
        case (Inr out)
        let ?rd' = "route cats ?fb out ?it rd"
        have nxt: "loop_state e cx cats (Suc k) = (Inr ?rd', lg')"
          using k st inv Inr by (simp add: loop_state_Suc process_item_classified [OF present])
        have cat: "?rd' ! j = rd ! j @ (if truthy (get_prop out (category (cats ! j)))
                                        then [?it] else [])"
          if "j < length cats" for j
          using nth_route_category [OF len that] .
        have catf: "?it \<in> set (final ! j)"
          if j: "j < length cats" and t: "truthy (get_prop out (category (cats ! j)))" for j
        proof -
          have "j < length ?rd'" using j len by simp
          from later [OF nxt this] obtain more where "final ! j = ?rd' ! j @ more" by blast
          then show ?thesis using cat [OF j] t by simp
        qed
        have fb: "?rd' ! length cats = rd ! length cats @ (if truthy (get_prop out ''fallback'')
                                        then [?it] else [])"
          if "?fb = Other"
          using that len nth_route_fallback [of rd cats out ?it] by simp
        have fbf: "?it \<in> set (final ! length cats)"
          if o: "?fb = Other" and t: "truthy (get_prop out ''fallback'')"
        proof -
          have "length cats < length ?rd'" using o len by simp
          from later [OF nxt this] obtain more where
            "final ! length cats = ?rd' ! length cats @ more" by blast
          then show ?thesis using fb [OF o] t by simp
        qed
        have "\<exists>rd'. loop_state e cx cats (Suc k) = (Inr rd', lg')
                           \<and> (\<forall>j<length cats.
                                 rd' ! j = rd ! j @ (if truthy (get_prop out (category (cats ! j)))
                                                     then [?it] else [])
                                 \<and> (truthy (get_prop out (category (cats ! j))) \<longrightarrow>
                                      ?it \<in> set (final ! j)))
                           \<and> (?fb = Other \<longrightarrow>
                                 rd' ! length cats =
                                   rd ! length cats @ (if truthy (get_prop out ''fallback'')
                                                       then [?it] else [])
                                 \<and> (truthy (get_prop out ''fallback'') \<longrightarrow>
                                      ?it \<in> set (final ! length cats)))"
          using nxt cat catf fb fbf by blast
        then show ?thesis using False st inv Inr by auto
      qed
    qed
  qed
  from ex flen each show ?thesis by blast
qed

theorem tolerant_run_never_raises_witness:
  "\<exists>final. fst (execute ex_env (ex_ctx ex_cats [JStr ''bad'', JUndefined, JStr ''Bug''] Discard True))
              = Inr final
     \<and> length final = 2
     \<and> \<lparr> json = [(''error'', JStr ''boom'')], pairedItem = Some 0 \<rparr> \<in> set (final ! 0)
     \<and> \<lparr> json = [(''error'', JStr ''Text to classify is not defined'')], pairedItem = Some 1 \<rparr>
           \<in> set (final ! 0)
     \<and> \<lparr> json = [(''text'', JStr ''Bug'')], pairedItem = Some 2 \<rparr> \<in> set (final ! 0)"
proof -
  let ?cx = "ex_ctx ex_cats [JStr ''bad'', JUndefined, JStr ''Bug''] Discard True"
  let ?ch = "chain_config (options_param ?cx) ex_cats"
  let ?e0 = "\<lparr> json = [(''error'', JStr ''boom'')], pairedItem = Some 0 \<rparr>"
  let ?e1 = "\<lparr> json = [(''error'', JStr ''Text to classify is not defined'')],
               pairedItem = Some (Suc 0) \<rparr>"
  let ?l2 = "[chain_request ex_env ?ch ex_cats (JStr ''bad'')]"
  have h1: "\<not> loadCategoriesFromInputItems ?cx" by (simp add: ex_ctx_def)
  have h2: "categories_param ?cx = Some ex_cats" by (simp add: ex_ctx_def)
  have h3: "ex_cats \<noteq> []" by (simp add: ex_cats_def)
  have h4: "template_error ex_env (system_template (options_param ?cx)) = None"
    by (simp add: ex_eval)
  have h5: "continueOnFail ?cx" by (simp add: ex_ctx_def)
  have s0: "loop_state ex_env ?cx ex_cats 0 = (Inr [[], []], [])"
    by (simp add: loop_state_def ex_eval)
  have s2: "loop_state ex_env ?cx ex_cats (Suc (Suc 0)) = (Inr [[?e0, ?e1], []], ?l2)"
    by (simp add: ex_run ex_eval)
  have fail: "chain_invoke ex_env ?ch ex_cats (inputText ?cx 0) [] = (Inl ''boom'', ?l2)"
    by (simp add: ex_eval)
  have good: "chain_invoke ex_env ?ch ex_cats (inputText ?cx (Suc (Suc 0))) ?l2 =
                (Inr [(''Bug'', JBool True), (''Feature'', JBool False)],
                 ?l2 @ [chain_request ex_env ?ch ex_cats (JStr ''Bug'')])"
    by (simp add: ex_eval)
  from tolerant_run_never_raises [OF h1 h2 h3 h4 h5]
  obtain final lgf where
    ex: "execute ex_env ?cx = (Inr final, lgf)" and
    flen: "length final =
             length ex_cats + (if opt_fallback (options_param ?cx) = Other then 1 else 0)" and
    each: "\<forall>k<length (items ?cx). \<exists>rd lg. loop_state ex_env ?cx ex_cats k = (Inr rd, lg)
          \<and> (if inputText ?cx k = JUndefined \<or> inputText ?cx k = JNull
              then loop_state ex_env ?cx ex_cats (Suc k) =
                     (Inr (rd[0 := rd ! 0 @ [\<lparr> json = [(''error'', JStr ''Text to classify is not defined'')],
                                                pairedItem = Some k \<rparr>]]), lg)
                   \<and> \<lparr> json = [(''error'', JStr ''Text to classify is not defined'')],
                        pairedItem = Some k \<rparr> \<in> set (final ! 0)
              else (case chain_invoke ex_env ?ch ex_cats (inputText ?cx k) lg of
                      (Inl msg, lg') \<Rightarrow>
                        loop_state ex_env ?cx ex_cats (Suc k) =
                          (Inr (rd[0 := rd ! 0 @ [\<lparr> json = [(''error'', JStr msg)],
                                                     pairedItem = Some k \<rparr>]]), lg')
                        \<and> \<lparr> json = [(''error'', JStr msg)], pairedItem = Some k \<rparr> \<in> set (final ! 0)
                    | (Inr out, lg') \<Rightarrow>
                        (\<exists>rd'. loop_state ex_env ?cx ex_cats (Suc k) = (Inr rd', lg')
                           \<and> (\<forall>j<length ex_cats.
                                 rd' ! j = rd ! j @ (if truthy (get_prop out (category (ex_cats ! j)))
                                                     then [(items ?cx ! k)\<lparr>pairedItem := Some k\<rparr>]
                                                     else [])
                                 \<and> (truthy (get_prop out (category (ex_cats ! j))) \<longrightarrow>
                                      (items ?cx ! k)\<lparr>pairedItem := Some k\<rparr> \<in> set (final ! j)))
                           \<and> (opt_fallback (options_param ?cx) = Other \<longrightarrow>
                                 rd' ! length ex_cats =
                                   rd ! length ex_cats @ (if truthy (get_prop out ''fallback'')
                                                       then [(items ?cx ! k)\<lparr>pairedItem := Some k\<rparr>]
                                                       else [])
                                 \<and> (truthy (get_prop out ''fallback'') \<longrightarrow>
                                      (items ?cx ! k)\<lparr>pairedItem := Some k\<rparr>
                                        \<in> set (final ! length ex_cats))))))"
    by blast
  have n: "length (items ?cx) = 3" by (simp add: ex_ctx_def)
  have t0: "inputText ?cx 0 = JStr ''bad''" by (simp add: ex_ctx_def)
  have t1: "inputText ?cx (Suc 0) = JUndefined" by (simp add: ex_ctx_def)
  have a0: "\<lparr> json = [(''error'', JStr ''boom'')], pairedItem = Some 0 \<rparr> \<in> set (final ! 0)"
    using each [rule_format, of 0] fail by (auto simp: n t0 s0)
  have a1: "\<lparr> json = [(''error'', JStr ''Text to classify is not defined'')], pairedItem = Some 1 \<rparr>
              \<in> set (final ! 0)"
    using each [rule_format, of "Suc 0"] by (auto simp: n t1)
  have "Suc (Suc 0) < length (items ?cx)" by (simp add: ex_ctx_def)
  from each [rule_format, OF this] obtain rd lg where
    r: "loop_state ex_env ?cx ex_cats (Suc (Suc 0)) = (Inr rd, lg)" and
    c: "if inputText ?cx (Suc (Suc 0)) = JUndefined \<or> inputText ?cx (Suc (Suc 0)) = JNull
        then loop_state ex_env ?cx ex_cats (Suc (Suc (Suc 0))) =
               (Inr (rd[0 := rd ! 0 @ [\<lparr> json = [(''error'', JStr ''Text to classify is not defined'')],
                                          pairedItem = Some (Suc (Suc 0)) \<rparr>]]), lg)
             \<and> \<lparr> json = [(''error'', JStr ''Text to classify is not defined'')],
                  pairedItem = Some (Suc (Suc 0)) \<rparr> \<in> set (final ! 0)
        else (case chain_invoke ex_env ?ch ex_cats (inputText ?cx (Suc (Suc 0))) lg of
                (Inl msg, lg') \<Rightarrow>
                  loop_state ex_env ?cx ex_cats (Suc (Suc (Suc 0))) =
                    (Inr (rd[0 := rd ! 0 @ [\<lparr> json = [(''error'', JStr msg)],
                                               pairedItem = Some (Suc (Suc 0)) \<rparr>]]), lg')
                  \<and> \<lparr> json = [(''error'', JStr msg)], pairedItem = Some (Suc (Suc 0)) \<rparr>
                      \<in> set (final ! 0)
              | (Inr out, lg') \<Rightarrow>
                  (\<exists>rd'. loop_state ex_env ?cx ex_cats (Suc (Suc (Suc 0))) = (Inr rd', lg')
                     \<and> (\<forall>j<length ex_cats.
                           rd' ! j = rd ! j @ (if truthy (get_prop out (category (ex_cats ! j)))
                                               then [(items ?cx ! Suc (Suc 0))\<lparr>pairedItem := Some (Suc (Suc 0))\<rparr>]
                                               else [])
                           \<and> (truthy (get_prop out (category (ex_cats ! j))) \<longrightarrow>
                                (items ?cx ! Suc (Suc 0))\<lparr>pairedItem := Some (Suc (Suc 0))\<rparr>
                                  \<in> set (final ! j)))
                     \<and> (opt_fallback (options_param ?cx) = Other \<longrightarrow>
                           rd' ! length ex_cats =
                             rd ! length ex_cats @ (if truthy (get_prop out ''fallback'')
                                                 then [(items ?cx ! Suc (Suc 0))\<lparr>pairedItem := Some (Suc (Suc 0))\<rparr>]
                                                 else [])
                           \<and> (truthy (get_prop out ''fallback'') \<longrightarrow>
                                (items ?cx ! Suc (Suc 0))\<lparr>pairedItem := Some (Suc (Suc 0))\<rparr>
                                  \<in> set (final ! length ex_cats)))))"
    by blast
  from r s2 have lg: "lg = ?l2" by simp
  have p: "\<not> (inputText ?cx (Suc (Suc 0)) = JUndefined \<or> inputText ?cx (Suc (Suc 0)) = JNull)"
    by (simp add: ex_ctx_def)
  from c p good lg obtain rd' where
    "\<forall>j<length ex_cats.
        rd' ! j = rd ! j @ (if truthy (get_prop [(''Bug'', JBool True), (''Feature'', JBool False)]
                                          (category (ex_cats ! j)))
                            then [(items ?cx ! Suc (Suc 0))\<lparr>pairedItem := Some (Suc (Suc 0))\<rparr>]
                            else [])
        \<and> (truthy (get_prop [(''Bug'', JBool True), (''Feature'', JBool False)]
                      (category (ex_cats ! j))) \<longrightarrow>
             (items ?cx ! Suc (Suc 0))\<lparr>pairedItem := Some (Suc (Suc 0))\<rparr> \<in> set (final ! j))"
    by auto
  from this [rule_format, of 0]
  have a2: "\<lparr> json = [(''text'', JStr ''Bug'')], pairedItem = Some 2 \<rparr> \<in> set (final ! 0)"
    by (simp add: ex_cats_def ex_ctx_def get_prop_def numeral_2_eq_2)
  have "length final = 2" using flen by (simp add: ex_eval)
  with ex a0 a1 a2 show ?thesis by auto
qed

subsection \<open>C4: Runs that abort\<close>

text \<open>
  Claim C4, as amended. In per-item mode with \<^verbatim>\<open>continueOnFail\<close> off, the first item that
  fails aborts the run, and an aborted run returns no branches. When the loop reaches
  item \<open>k\<close> and the text of the item is \<^verbatim>\<open>undefined\<close> or \<^verbatim>\<open>null\<close>, the run throws
  \<^verbatim>\<open>Text to classify for item k is not defined\<close>, a message that determines \<open>k\<close>. When
  the classification of item \<open>k\<close> fails, the run rethrows the error of the chain as it
  is.
\<close>

theorem intolerant_run_aborts_at_first_failure:
  assumes mode: "\<not> loadCategoriesFromInputItems cx" "categories_param cx = Some cats" "cats \<noteq> []"
    and strict: "\<not> continueOnFail cx"
    and k: "k < length (items cx)"
    and reached: "loop_state e cx cats k = (Inr rd, lg)"
  shows "(inputText cx k = JUndefined \<or> inputText cx k = JNull \<longrightarrow>
            execute e cx =
              (Inl (NodeOperationError
                      (''Text to classify for item '' @ string_of_nat k @ '' is not defined'')), lg)
            \<and> (\<forall>k'. missing_text_message k' = missing_text_message k \<longrightarrow> k' = k))
       \<and> (inputText cx k \<noteq> JUndefined \<and> inputText cx k \<noteq> JNull \<longrightarrow>
            (\<forall>msg lg'. chain_invoke e (chain_config (options_param cx) cats) cats
                          (inputText cx k) lg = (Inl msg, lg') \<longrightarrow>
                        execute e cx = (Inl (Rethrown msg), lg')))"
proof -
  have fin: "execute e cx = loop_state e cx cats (length (items cx))"
    using execute_per_item [OF mode] .
  have abort: "execute e cx = (Inl err, lg')"
    if "loop_state e cx cats (Suc k) = (Inl err, lg')" for err lg'
    using loop_state_abort [OF _ _ that, of "length (items cx)"] k fin by simp
  have "execute e cx = (Inl (NodeOperationError (missing_text_message k)), lg)"
    if "inputText cx k = JUndefined \<or> inputText cx k = JNull"
    using k reached strict by (intro abort) (simp add: loop_state_Suc process_item_missing [OF that])
  moreover have "execute e cx = (Inl (Rethrown msg), lg')"
    if "inputText cx k \<noteq> JUndefined" "inputText cx k \<noteq> JNull"
      "chain_invoke e (chain_config (options_param cx) cats) cats (inputText cx k) lg = (Inl msg, lg')"
    for msg lg'
    using k reached strict by (intro abort) (simp add: loop_state_Suc process_item_failed [OF that])
  ultimately show ?thesis
    using missing_text_message_inject by (auto simp: missing_text_message_def)
qed

theorem intolerant_run_aborts_at_first_failure_witness:
  "execute ex_env (ex_ctx ex_cats [JStr ''Bug'', JUndefined] Discard False) =
     (Inl (NodeOperationError ''Text to classify for item 1 is not defined''),
      [chain_request ex_env (chain_config (ex_opts Discard) ex_cats) ex_cats (JStr ''Bug'')])
   \<and> execute ex_env (ex_ctx ex_cats [JStr ''Bug'', JStr ''bad''] Discard False) =
     (Inl (Rethrown ''boom''),
      [chain_request ex_env (chain_config (ex_opts Discard) ex_cats) ex_cats (JStr ''Bug''),
       chain_request ex_env (chain_config (ex_opts Discard) ex_cats) ex_cats (JStr ''bad'')])"
proof -
  let ?ch = "chain_config (ex_opts Discard) ex_cats"
  let ?rd = "[[\<lparr> json = [(''text'', JStr ''Bug'')], pairedItem = Some 0 \<rparr>], []]"
  let ?lg = "[chain_request ex_env ?ch ex_cats (JStr ''Bug'')]"
  have h3: "ex_cats \<noteq> []" by (simp add: ex_cats_def)
  have one: "string_of_nat (Suc 0) = ''1''"
    by (simp add: string_of_nat.simps [of "Suc 0"] digit_char_def)
  have a: "execute ex_env (ex_ctx ex_cats [JStr ''Bug'', JUndefined] Discard False) =
     (Inl (NodeOperationError ''Text to classify for item 1 is not defined''), ?lg)"
  proof -
    let ?cx = "ex_ctx ex_cats [JStr ''Bug'', JUndefined] Discard False"
    have h1: "\<not> loadCategoriesFromInputItems ?cx" by (simp add: ex_ctx_def)
    have h2: "categories_param ?cx = Some ex_cats" by (simp add: ex_ctx_def)
    have h4: "\<not> continueOnFail ?cx" by (simp add: ex_ctx_def)
    have h5: "Suc 0 < length (items ?cx)" by (simp add: ex_ctx_def)
    have h6: "loop_state ex_env ?cx ex_cats (Suc 0) = (Inr ?rd, ?lg)"
      by (simp add: ex_run ex_eval)
    have "inputText ?cx (Suc 0) = JUndefined" by (simp add: ex_ctx_def)
    with intolerant_run_aborts_at_first_failure [OF h1 h2 h3 h4 h5 h6]
    show ?thesis by (simp add: one)
  qed
  have b: "execute ex_env (ex_ctx ex_cats [JStr ''Bug'', JStr ''bad''] Discard False) =
     (Inl (Rethrown ''boom''), ?lg @ [chain_request ex_env ?ch ex_cats (JStr ''bad'')])"
  proof -
    let ?cx = "ex_ctx ex_cats [JStr ''Bug'', JStr ''bad''] Discard False"
    have h1: "\<not> loadCategoriesFromInputItems ?cx" by (simp add: ex_ctx_def)
    have h2: "categories_param ?cx = Some ex_cats" by (simp add: ex_ctx_def)
    have h4: "\<not> continueOnFail ?cx" by (simp add: ex_ctx_def)
    have h5: "Suc 0 < length (items ?cx)" by (simp add: ex_ctx_def)
    have h6: "loop_state ex_env ?cx ex_cats (Suc 0) = (Inr ?rd, ?lg)"
      by (simp add: ex_run ex_eval)
    have p: "inputText ?cx (Suc 0) \<noteq> JUndefined \<and> inputText ?cx (Suc 0) \<noteq> JNull"
      by (simp add: ex_ctx_def)
    have f: "chain_invoke ex_env (chain_config (options_param ?cx) ex_cats) ex_cats
               (inputText ?cx (Suc 0)) ?lg =
             (Inl ''boom'', ?lg @ [chain_request ex_env ?ch ex_cats (JStr ''bad'')])"
      by (simp add: ex_eval)
    from intolerant_run_aborts_at_first_failure [OF h1 h2 h3 h4 h5 h6] p f
    show ?thesis by blast
  qed
  from a b show ?thesis by simp
qed

text \<open>
  Claim C4 as stated fails: the rethrown error of a failed classification does not
  identify the item. The failure of item 0 in one batch and the failure of item 1 in
  another (whose item 0 is routed to the first branch) abort with the same error.
\<close>

theorem abort_error_without_item_index:
  "fst (execute ex_env (ex_ctx ex_cats [JStr ''bad'', JStr ''Bug''] Discard False))
     = Inl (Rethrown ''boom'')
   \<and> fst (loop_state ex_env (ex_ctx ex_cats [JStr ''Bug'', JStr ''bad''] Discard False) ex_cats (Suc 0))
     = Inr [[\<lparr> json = [(''text'', JStr ''Bug'')], pairedItem = Some 0 \<rparr>], []]
   \<and> fst (execute ex_env (ex_ctx ex_cats [JStr ''Bug'', JStr ''bad''] Discard False))
     = Inl (Rethrown ''boom'')"
  by (simp add: ex_run ex_eval)

subsection \<open>C5: Model calls per item\<close>

text \<open>
  Claim C5. In per-item mode with auto-fixing disabled, in a run that enters its loop
  (the system prompt template is well-formed), when every item has a text and every
  classification succeeds (each invoked after the calls of the items before it),
  the run returns branches and its log of model calls has exactly one request per item,
  in item order: the request of item \<open>i\<close> carries the text of item \<open>i\<close>, and all
  requests carry the same system template, the same category list and the format
  instructions of the same schema, which are built from the options and the categories
  alone.
\<close>

theorem one_model_call_per_item:
  assumes mode: "\<not> loadCategoriesFromInputItems cx" "categories_param cx = Some cats" "cats \<noteq> []"
    and built: "template_error e (system_template (options_param cx)) = None"
    and plain: "\<not> opt_autofix (options_param cx)"
    and present: "\<forall>k<length (items cx). inputText cx k \<noteq> JUndefined \<and> inputText cx k \<noteq> JNull"
    and succeed: "\<forall>k<length (items cx). \<exists>out lg'.
        chain_invoke e (chain_config (options_param cx) cats) cats (inputText cx k)
          (map (\<lambda>i. Classify (system_template (options_param cx))
                       (join '', '' (map category cats))
                       (format_instructions e
                          (build_schema cats (opt_fallback (options_param cx))))
                       (inputText cx i)) [0..<k])
        = (Inr out, lg')"
  shows "(\<exists>final. execute e cx =
            (Inr final,
             map (\<lambda>i. Classify (system_template (options_param cx))
                       (join '', '' (map category cats))
                       (format_instructions e
                          (build_schema cats (opt_fallback (options_param cx))))
                       (inputText cx i)) [0..<length (items cx)]))
         \<and> length (snd (execute e cx)) = length (items cx)"
proof -
  let ?ch = "chain_config (options_param cx) cats"
  let ?req = "\<lambda>i. Classify (system_template (options_param cx))
                       (join '', '' (map category cats))
                       (format_instructions e
                          (build_schema cats (opt_fallback (options_param cx))))
                       (inputText cx i)"
  have req: "chain_request e ?ch cats (inputText cx i) = ?req i" for i
    by (simp add: chain_request_def chain_config_def)
  have noauto: "\<not> chain_autofix ?ch" using plain by (simp add: chain_config_def)
  have inv: "k \<le> length (items cx) \<Longrightarrow>
      \<exists>rd. loop_state e cx cats k = (Inr rd, map ?req [0..<k])" for k
  proof (induction k)
    case 0
    show ?case by (simp add: loop_state_0 [OF built])
  next
    case (Suc k)
    then obtain rd where st: "loop_state e cx cats k = (Inr rd, map ?req [0..<k])" by auto
    have k: "k < length (items cx)" using Suc.prems by simp
    from succeed k obtain out lg' where
      ok: "chain_invoke e ?ch cats (inputText cx k) (map ?req [0..<k]) = (Inr out, lg')" by blast
    have "lg' = map ?req [0..<k] @ [?req k]"
      using chain_invoke_log_plain [OF noauto ok] by (simp add: req)
    then have lg': "lg' = map ?req [0..<Suc k]" by simp
    have p: "inputText cx k \<noteq> JUndefined" "inputText cx k \<noteq> JNull" using present k by auto
    have step: "process_item e cx ?ch cats (opt_fallback (options_param cx)) k (items cx ! k) rd
                  (map ?req [0..<k]) =
                (Inr (route cats (opt_fallback (options_param cx)) out
                        ((items cx ! k)\<lparr>pairedItem := Some k\<rparr>) rd), lg')"
      by (rule process_item_classified [OF p ok])
    have "loop_state e cx cats (Suc k) =
            (Inr (route cats (opt_fallback (options_param cx)) out
                    ((items cx ! k)\<lparr>pairedItem := Some k\<rparr>) rd), lg')"
      by (simp add: loop_state_Suc [OF k] st step)
    then show ?case unfolding lg' by blast
  qed
  from inv [of "length (items cx)"] obtain final where
    "loop_state e cx cats (length (items cx)) = (Inr final, map ?req [0..<length (items cx)])"
    by auto
  then have "execute e cx = (Inr final, map ?req [0..<length (items cx)])"
    using execute_per_item [OF mode] by simp
  then show ?thesis by auto
qed

theorem one_model_call_per_item_witness:
  "length (snd (execute ex_env (ex_ctx ex_cats [JStr ''Bug'', JStr ''Feature''] Other False))) = 2
   \<and> enableAutoFixing (options_param (ex_ctx ex_cats [JStr ''Bug'', JStr ''Feature''] Other False))
       = Some False"
proof -
  let ?cx = "ex_ctx ex_cats [JStr ''Bug'', JStr ''Feature''] Other False"
  have h1: "\<not> loadCategoriesFromInputItems ?cx" by (simp add: ex_ctx_def)
  have h2: "categories_param ?cx = Some ex_cats" by (simp add: ex_ctx_def)
  have h3: "ex_cats \<noteq> []" by (simp add: ex_cats_def)
  have hb: "template_error ex_env (system_template (options_param ?cx)) = None"
    by (simp add: ex_eval)
  have h4: "\<not> opt_autofix (options_param ?cx)"
    by (simp add: ex_ctx_def ex_opts_def opt_autofix_def)
  have two: "k = 0 \<or> k = Suc 0" if "k < length (items ?cx)" for k
    using that by (auto simp: ex_ctx_def)
  have h5: "\<forall>k<length (items ?cx). inputText ?cx k \<noteq> JUndefined \<and> inputText ?cx k \<noteq> JNull"
  proof (intro allI impI)
    fix k assume "k < length (items ?cx)"
    from two [OF this] show "inputText ?cx k \<noteq> JUndefined \<and> inputText ?cx k \<noteq> JNull"
      by (elim disjE) (simp_all add: ex_ctx_def)
  qed
  have h6: "\<forall>k<length (items ?cx). \<exists>out lg'.
        chain_invoke ex_env (chain_config (options_param ?cx) ex_cats) ex_cats (inputText ?cx k)
          (map (\<lambda>i. Classify (system_template (options_param ?cx))
                       (join '', '' (map category ex_cats))
                       (format_instructions ex_env
                          (build_schema ex_cats (opt_fallback (options_param ?cx))))
                       (inputText ?cx i)) [0..<k])
        = (Inr out, lg')"
  proof (intro allI impI)
    fix k assume "k < length (items ?cx)"
    from two [OF this] show "\<exists>out lg'.
        chain_invoke ex_env (chain_config (options_param ?cx) ex_cats) ex_cats (inputText ?cx k)
          (map (\<lambda>i. Classify (system_template (options_param ?cx))
                       (join '', '' (map category ex_cats))
                       (format_instructions ex_env
                          (build_schema ex_cats (opt_fallback (options_param ?cx))))
                       (inputText ?cx i)) [0..<k])
        = (Inr out, lg')"
      by (elim disjE)
         (simp_all add: ex_eval)
  qed
  have "length (items ?cx) = 2" by (simp add: ex_ctx_def)
  with one_model_call_per_item [OF h1 h2 h3 hb h4 h5 h6]
  have "length (snd (execute ex_env ?cx)) = 2" by simp
  then show ?thesis by (simp add: ex_ctx_def ex_opts_def)
qed

subsection \<open>C6: Aggregate mode\<close>

text \<open>
  Claim C6. In aggregate mode, once the categories are loaded, not empty, the text is
  present and the chain is built (the system prompt template is well-formed), the single
  invocation of the chain decides the result and the run never throws: an error of the chain gives one branch with one item whose payload is the
  error record; an answer gives one branch with one item whose payload is the answer
  with the property \<^verbatim>\<open>input\<close> set to the text (every other property reads as in the
  answer).
\<close>

theorem aggregate_mode_never_aborts_on_classification_failure:
  assumes mode: "loadCategoriesFromInputItems cx"
    and cats: "load_categories 0 (items cx) = Inr cats" "cats \<noteq> []"
    and present: "inputText cx 0 \<noteq> JUndefined" "inputText cx 0 \<noteq> JNull"
    and built: "template_error e (system_template (options_param cx)) = None"
  shows "(case chain_invoke e (chain_config (options_param cx) cats) cats (inputText cx 0) [] of
            (Inl msg, lg) \<Rightarrow>
              execute e cx = (Inr [[\<lparr> json = [(''error'', JStr msg)], pairedItem = None \<rparr>]], lg)
          | (Inr out, lg) \<Rightarrow>
              execute e cx =
                (Inr [[\<lparr> json = fromEntries (out @ [(''input'', inputText cx 0)]),
                        pairedItem = None \<rparr>]], lg)
              \<and> get_prop (fromEntries (out @ [(''input'', inputText cx 0)])) ''input''
                  = inputText cx 0
              \<and> (\<forall>key. key \<noteq> ''input'' \<longrightarrow>
                    get_prop (fromEntries (out @ [(''input'', inputText cx 0)])) key
                    = get_prop out key))"
proof -
  let ?ch = "chain_config (options_param cx) cats"
  obtain res lg where inv: "chain_invoke e ?ch cats (inputText cx 0) [] = (res, lg)"
    by (cases "chain_invoke e ?ch cats (inputText cx 0) []")
  show ?thesis
  proof (cases res)
    case (Inl msg)
    then show ?thesis using mode cats present inv
      by (simp add: execute_def Let_def build_chain_wellformed [OF built])
  next
    case (Inr out)
    have "map fst out = map fst (chain_schema ?ch)" using chain_invoke_keys inv Inr by blast
    then have "distinct (map fst out)"
      by (simp add: chain_config_def build_schema_def distinct_keys_fromEntries)
    from get_prop_merged [OF this] show ?thesis
      using mode cats present inv Inr
      by (simp add: execute_def Let_def build_chain_wellformed [OF built])
  qed
qed

theorem aggregate_mode_never_aborts_on_classification_failure_witness:
  "execute ex_env (ex_agg_ctx ex_cats (JStr ''bad'')) =
     (Inr [[\<lparr> json = [(''error'', JStr ''boom'')], pairedItem = None \<rparr>]],
      [chain_request ex_env (chain_config (ex_opts Discard) ex_cats) ex_cats (JStr ''bad'')])
   \<and> execute ex_env (ex_agg_ctx ex_cats (JStr ''Bug'')) =
     (Inr [[\<lparr> json = [(''Bug'', JBool True), (''Feature'', JBool False), (''input'', JStr ''Bug'')],
             pairedItem = None \<rparr>]],
      [chain_request ex_env (chain_config (ex_opts Discard) ex_cats) ex_cats (JStr ''Bug'')])"
proof -
  let ?ch = "chain_config (ex_opts Discard) ex_cats"
  have h3: "ex_cats \<noteq> []" by (simp add: ex_cats_def)
  have a: "execute ex_env (ex_agg_ctx ex_cats (JStr ''bad'')) =
     (Inr [[\<lparr> json = [(''error'', JStr ''boom'')], pairedItem = None \<rparr>]],
      [chain_request ex_env ?ch ex_cats (JStr ''bad'')])"
  proof -
    let ?cx = "ex_agg_ctx ex_cats (JStr ''bad'')"
    have h1: "loadCategoriesFromInputItems ?cx" by (simp add: ex_agg_ctx_def)
    have h2: "load_categories 0 (items ?cx) = Inr ex_cats"
      by (simp add: ex_agg_ctx_def ex_cats_def get_prop_def)
    have h4: "inputText ?cx 0 \<noteq> JUndefined" by (simp add: ex_agg_ctx_def)
    have h5: "inputText ?cx 0 \<noteq> JNull" by (simp add: ex_agg_ctx_def)
    have f: "chain_invoke ex_env (chain_config (options_param ?cx) ex_cats) ex_cats (inputText ?cx 0) []
               = (Inl ''boom'', [chain_request ex_env ?ch ex_cats (JStr ''bad'')])"
      by (simp add: ex_eval ex_agg_ctx_def)
    have h6: "template_error ex_env (system_template (options_param ?cx)) = None"
      by (simp add: ex_eval ex_agg_ctx_def)
    from aggregate_mode_never_aborts_on_classification_failure [OF h1 h2 h3 h4 h5 h6]
    show ?thesis unfolding f by simp
  qed
  have b: "execute ex_env (ex_agg_ctx ex_cats (JStr ''Bug'')) =
     (Inr [[\<lparr> json = [(''Bug'', JBool True), (''Feature'', JBool False), (''input'', JStr ''Bug'')],
             pairedItem = None \<rparr>]],
      [chain_request ex_env ?ch ex_cats (JStr ''Bug'')])"
  proof -
    let ?cx = "ex_agg_ctx ex_cats (JStr ''Bug'')"
    have h1: "loadCategoriesFromInputItems ?cx" by (simp add: ex_agg_ctx_def)
    have h2: "load_categories 0 (items ?cx) = Inr ex_cats"
      by (simp add: ex_agg_ctx_def ex_cats_def get_prop_def)
    have h4: "inputText ?cx 0 \<noteq> JUndefined" by (simp add: ex_agg_ctx_def)
    have h5: "inputText ?cx 0 \<noteq> JNull" by (simp add: ex_agg_ctx_def)
    have f: "chain_invoke ex_env (chain_config (options_param ?cx) ex_cats) ex_cats (JStr ''Bug'') []
               = (Inr [(''Bug'', JBool True), (''Feature'', JBool False)],
                  [chain_request ex_env ?ch ex_cats (JStr ''Bug'')])"
      by (simp add: ex_eval ex_agg_ctx_def)
    have m: "fromEntries [(''Bug'', JBool True), (''Feature'', JBool False), (''input'', JStr ''Bug'')]
               = [(''Bug'', JBool True), (''Feature'', JBool False), (''input'', JStr ''Bug'')]"
      by (simp add: fromEntries_def set_prop_def goes_before_def array_index_def is_digit_def)
    have t: "inputText ?cx 0 = JStr ''Bug''" by (simp add: ex_agg_ctx_def)
    have h6: "template_error ex_env (system_template (options_param ?cx)) = None"
      by (simp add: ex_eval ex_agg_ctx_def)
    from aggregate_mode_never_aborts_on_classification_failure [OF h1 h2 h3 h4 h5 h6]
    show ?thesis unfolding t f by (simp add: m)
  qed
  from a b show ?thesis by simp
qed

subsection \<open>C7: Categories of the same name\<close>

text \<open>
  Claim C7, as amended. When two categories have the same name the run is not rejected:
  nothing compares the names. A run in per-item mode with \<^verbatim>\<open>continueOnFail\<close> on returns
  one branch per category (and one more under the policy \<open>Other\<close>), and a run in
  aggregate mode returns its single item, as soon as the chain is built. The schema has
  one field per distinct key (the names, and \<^verbatim>\<open>fallback\<close> under \<open>Other\<close>), which is
  fewer fields than the run has branches; the field of a shared name carries the
  description of the last category of that name, except that under \<open>Other\<close> the field
  \<^verbatim>\<open>fallback\<close> carries the synthetic description. Two
  categories of the same name read the same answer field, so in one iteration of the
  loop their branches receive the item together, or neither does.
\<close>

theorem duplicate_names_are_not_rejected:
  assumes dup: "\<not> distinct (map category cats)"
  shows "(\<not> loadCategoriesFromInputItems cx \<and> categories_param cx = Some cats
          \<and> template_error e (system_template (options_param cx)) = None
          \<and> continueOnFail cx \<longrightarrow>
            (\<exists>final lg. execute e cx = (Inr final, lg)
               \<and> length final =
                   length cats + (if opt_fallback (options_param cx) = Other then 1 else 0)))
     \<and> (loadCategoriesFromInputItems cx \<and> load_categories 0 (items cx) = Inr cats
          \<and> inputText cx 0 \<noteq> JUndefined \<and> inputText cx 0 \<noteq> JNull
          \<and> template_error e (system_template (options_param cx)) = None \<longrightarrow>
            (\<exists>x lg. execute e cx = (Inr [[x]], lg)))
     \<and> distinct (keys (build_schema cats fb))
     \<and> length (build_schema cats fb) =
         card (set (map category cats) \<union> (if fb = Other then {''fallback''} else {}))
     \<and> length (build_schema cats fb) < length cats + (if fb = Other then 1 else 0)
     \<and> (\<forall>c \<in> set cats. (fb = Other \<longrightarrow> category c \<noteq> ''fallback'') \<longrightarrow>
           map_of (build_schema cats fb) (category c) =
             Some (field_description (last (filter (\<lambda>c'. category c' = category c) cats))))
     \<and> (fb = Other \<longrightarrow>
           map_of (build_schema cats fb) ''fallback'' =
             Some ''Should be true if none of the other categories apply'')
     \<and> (a < length cats \<and> b < length cats \<and> category (cats ! a) = category (cats ! b)
          \<and> length rd = length cats + (if fb = Other then 1 else 0)
          \<and> inputText cx i \<noteq> JUndefined \<and> inputText cx i \<noteq> JNull
          \<and> chain_invoke e ch cats (inputText cx i) lg = (Inr out, lg') \<longrightarrow>
            (\<exists>rd'. process_item e cx ch cats fb i it rd lg = (Inr rd', lg')
               \<and> rd' ! a = rd ! a @ (if truthy (get_prop out (category (cats ! a)))
                                      then [it\<lparr>pairedItem := Some i\<rparr>] else [])
               \<and> rd' ! b = rd ! b @ (if truthy (get_prop out (category (cats ! a)))
                                      then [it\<lparr>pairedItem := Some i\<rparr>] else [])))"
proof -
  have ne: "cats \<noteq> []" using dup by auto
  have tol: "\<exists>final lg. execute e cx = (Inr final, lg)
               \<and> length final =
                   length cats + (if opt_fallback (options_param cx) = Other then 1 else 0)"
    if m: "\<not> loadCategoriesFromInputItems cx" "categories_param cx = Some cats"
      and b: "template_error e (system_template (options_param cx)) = None"
      and t: "continueOnFail cx"
  proof -
    from loop_state_tolerant [OF b t] obtain final lg where
      st: "loop_state e cx cats (length (items cx)) = (Inr final, lg)" by blast
    from loop_state_length [OF st] st execute_per_item [OF m ne] show ?thesis by simp
  qed
  have agg: "\<exists>x lg. execute e cx = (Inr [[x]], lg)"
    if "loadCategoriesFromInputItems cx" "load_categories 0 (items cx) = Inr cats"
      "inputText cx 0 \<noteq> JUndefined" "inputText cx 0 \<noteq> JNull"
      "template_error e (system_template (options_param cx)) = None"
    using that ne
    by (auto simp: execute_def Let_def build_chain_wellformed split: prod.splits sum.splits)
  have descr: "\<forall>c \<in> set cats. (fb = Other \<longrightarrow> category c \<noteq> ''fallback'') \<longrightarrow>
           map_of (build_schema cats fb) (category c) =
             Some (field_description (last (filter (\<lambda>c'. category c' = category c) cats)))"
    using map_of_build_schema_category by blast
  have fbd: "fb = Other \<longrightarrow>
           map_of (build_schema cats fb) ''fallback'' =
             Some ''Should be true if none of the other categories apply''"
    using map_of_build_schema_fallback by simp
  have both: "\<exists>rd'. process_item e cx ch cats fb i it rd lg = (Inr rd', lg')
               \<and> rd' ! a = rd ! a @ (if truthy (get_prop out (category (cats ! a)))
                                      then [it\<lparr>pairedItem := Some i\<rparr>] else [])
               \<and> rd' ! b = rd ! b @ (if truthy (get_prop out (category (cats ! a)))
                                      then [it\<lparr>pairedItem := Some i\<rparr>] else [])"
    if "a < length cats" "b < length cats" "category (cats ! a) = category (cats ! b)"
      "length rd = length cats + (if fb = Other then 1 else 0)"
      and p: "inputText cx i \<noteq> JUndefined" "inputText cx i \<noteq> JNull"
      and ok: "chain_invoke e ch cats (inputText cx i) lg = (Inr out, lg')"
    using nth_route_category [OF that(4) that(1), of out "it\<lparr>pairedItem := Some i\<rparr>"]
      nth_route_category [OF that(4) that(2), of out "it\<lparr>pairedItem := Some i\<rparr>"] that(3)
      process_item_classified [OF p ok]
    by simp
  from tol agg distinct_keys_build_schema length_build_schema
    build_schema_duplicates_smaller [OF dup] descr fbd both
  show ?thesis by blast
qed

theorem duplicate_names_are_not_rejected_witness:
  "(\<exists>final. fst (execute ex_env
                   (ex_ctx [\<lparr> category = ''Bug'', description = ''defect report'' \<rparr>,
                            \<lparr> category = ''Bug'', description = ''crash'' \<rparr>]
                      [JStr ''Bug''] Discard True)) = Inr final
            \<and> length final = 2)
   \<and> length (build_schema [\<lparr> category = ''Bug'', description = ''defect report'' \<rparr>,
                            \<lparr> category = ''Bug'', description = ''crash'' \<rparr>] Discard) < 2
   \<and> (\<exists>rd'. fst (process_item ex_env
                  (ex_ctx [\<lparr> category = ''Bug'', description = ''defect report'' \<rparr>,
                           \<lparr> category = ''Bug'', description = ''crash'' \<rparr>]
                     [JStr ''Bug''] Discard True)
                  (chain_config (ex_opts Discard)
                     [\<lparr> category = ''Bug'', description = ''defect report'' \<rparr>,
                      \<lparr> category = ''Bug'', description = ''crash'' \<rparr>])
                  [\<lparr> category = ''Bug'', description = ''defect report'' \<rparr>,
                   \<lparr> category = ''Bug'', description = ''crash'' \<rparr>]
                  Discard 0 \<lparr> json = [(''text'', JStr ''Bug'')], pairedItem = None \<rparr>
                  [[], []] []) = Inr rd'
          \<and> rd' ! 0 = [\<lparr> json = [(''text'', JStr ''Bug'')], pairedItem = Some 0 \<rparr>]
          \<and> rd' ! 1 = [\<lparr> json = [(''text'', JStr ''Bug'')], pairedItem = Some 0 \<rparr>])"
proof -
  let ?cs = "[\<lparr> category = ''Bug'', description = ''defect report'' \<rparr>,
              \<lparr> category = ''Bug'', description = ''crash'' \<rparr>]"
  let ?cx = "ex_ctx ?cs [JStr ''Bug''] Discard True"
  let ?ch = "chain_config (ex_opts Discard) ?cs"
  let ?it = "\<lparr> json = [(''text'', JStr ''Bug'')], pairedItem = None \<rparr>"
  let ?out = "[(''Bug'', JBool True)]"
  let ?lg = "[chain_request ex_env ?ch ?cs (JStr ''Bug'')]"
  have h: "\<not> distinct (map category ?cs)" by simp
  have m: "\<not> loadCategoriesFromInputItems ?cx \<and> categories_param ?cx = Some ?cs
             \<and> template_error ex_env (system_template (options_param ?cx)) = None
             \<and> continueOnFail ?cx"
    by (simp add: ex_eval)
  have fb: "opt_fallback (options_param ?cx) = Discard"
    by (simp add: ex_ctx_def ex_opts_def opt_fallback_def)
  have pre: "0 < length ?cs \<and> Suc 0 < length ?cs \<and> category (?cs ! 0) = category (?cs ! Suc 0)
          \<and> length [[], []::item list] = length ?cs + (if Discard = Other then 1 else 0)
          \<and> inputText ?cx 0 \<noteq> JUndefined \<and> inputText ?cx 0 \<noteq> JNull
          \<and> chain_invoke ex_env ?ch ?cs (inputText ?cx 0) [] = (Inr ?out, ?lg)"
    by (simp add: ex_eval)
  note inst = duplicate_names_are_not_rejected
                [OF h, where cx = ?cx and e = ex_env and fb = Discard and a = 0 and b = "Suc 0"
                   and rd = "[[], []]" and out = ?out and it = ?it and i = 0 and ch = ?ch
                   and lg = "[]" and lg' = ?lg]
  from inst m obtain final lg where
    "execute ex_env ?cx = (Inr final, lg)"
    "length final = length ?cs + (if opt_fallback (options_param ?cx) = Other then 1 else 0)"
    by blast
  then have run: "fst (execute ex_env ?cx) = Inr final \<and> length final = 2"
    by (simp add: fb)
  from inst
  have "length (build_schema ?cs Discard) < length ?cs + (if Discard = Other then 1 else 0)"
    by blast
  then have small: "length (build_schema ?cs Discard) < 2" by simp
  from inst pre obtain rd' where
    r: "process_item ex_env ?cx ?ch ?cs Discard 0 ?it [[], []] [] = (Inr rd', ?lg)"
      "rd' ! 0 = [[], []] ! 0 @ (if truthy (get_prop ?out (category (?cs ! 0)))
                                 then [?it\<lparr>pairedItem := Some 0\<rparr>] else [])"
      "rd' ! Suc 0 = [[], []] ! Suc 0 @ (if truthy (get_prop ?out (category (?cs ! 0)))
                                 then [?it\<lparr>pairedItem := Some 0\<rparr>] else [])"
    by blast
  have "fst (process_item ex_env ?cx ?ch ?cs Discard 0 ?it [[], []] []) = Inr rd'"
    using r(1) by simp
  moreover have "rd' ! 0 = [\<lparr> json = [(''text'', JStr ''Bug'')], pairedItem = Some 0 \<rparr>]"
    using r(2) by (simp add: get_prop_def)
  moreover have "rd' ! 1 = [\<lparr> json = [(''text'', JStr ''Bug'')], pairedItem = Some 0 \<rparr>]"
    using r(3) by (simp add: get_prop_def)
  ultimately show ?thesis using run small by blast
qed

text \<open>
  Claim C7 as stated fails: with two categories named \<^verbatim>\<open>Bug\<close> the run in per-item mode
  returns both branches, each holding the item, and the run in aggregate mode returns
  the answer with its single field \<^verbatim>\<open>Bug\<close>; neither throws.
\<close>

theorem duplicate_names_accepted:
  "fst (execute ex_env
          (ex_ctx [\<lparr> category = ''Bug'', description = ''defect report'' \<rparr>,
                   \<lparr> category = ''Bug'', description = ''crash'' \<rparr>]
             [JStr ''Bug''] Discard False))
     = Inr [[\<lparr> json = [(''text'', JStr ''Bug'')], pairedItem = Some 0 \<rparr>],
            [\<lparr> json = [(''text'', JStr ''Bug'')], pairedItem = Some 0 \<rparr>]]
   \<and> fst (execute ex_env
            (ex_agg_ctx [\<lparr> category = ''Bug'', description = ''defect report'' \<rparr>,
                         \<lparr> category = ''Bug'', description = ''crash'' \<rparr>] (JStr ''Bug'')))
     = Inr [[\<lparr> json = [(''Bug'', JBool True), (''input'', JStr ''Bug'')], pairedItem = None \<rparr>]]"
  by (simp add: ex_run ex_eval ex_agg_ctx_def)

subsection \<open>C8: Empty category set\<close>

text \<open>
  Claim C8. In both modes an empty category set makes \<^verbatim>\<open>execute\<close> throw
  \<^verbatim>\<open>At least one category must be defined\<close> with an empty log of model calls: no item
  is classified and no branches are returned.
\<close>

theorem empty_category_set_is_fatal:
  assumes "(\<not> loadCategoriesFromInputItems cx
              \<and> (categories_param cx = None \<or> categories_param cx = Some []))
         \<or> (loadCategoriesFromInputItems cx \<and> load_categories 0 (items cx) = Inr [])"
  shows "execute e cx = (Inl (NodeOperationError ''At least one category must be defined''), [])"
  using assms by (auto simp: execute_def no_category_error_def)

theorem empty_category_set_is_fatal_witness:
  "execute ex_env (ex_ctx [] [JStr ''Bug''] Discard True) =
     (Inl (NodeOperationError ''At least one category must be defined''), [])
   \<and> execute ex_env (ex_agg_ctx [] (JStr ''Bug'')) =
     (Inl (NodeOperationError ''At least one category must be defined''), [])"
proof -
  have a: "\<not> loadCategoriesFromInputItems (ex_ctx [] [JStr ''Bug''] Discard True)
             \<and> (categories_param (ex_ctx [] [JStr ''Bug''] Discard True) = None
                \<or> categories_param (ex_ctx [] [JStr ''Bug''] Discard True) = Some [])"
    by (simp add: ex_ctx_def)
  have b: "loadCategoriesFromInputItems (ex_agg_ctx [] (JStr ''Bug''))
             \<and> load_categories 0 (items (ex_agg_ctx [] (JStr ''Bug''))) = Inr []"
    by (simp add: ex_agg_ctx_def)
  from empty_category_set_is_fatal [OF disjI1, OF a, of ex_env]
       empty_category_set_is_fatal [OF disjI2, OF b, of ex_env]
  show ?thesis by simp
qed

subsection \<open>C9: A category named fallback\<close>



subsection \<open>C10: Missing text\<close>

text \<open>
  Claim C10, as amended. One iteration of the loop takes the missing-text path exactly
  when the text of the item is \<^verbatim>\<open>undefined\<close> or \<^verbatim>\<open>null\<close>: then it makes no model call
  and gives the error record \<^verbatim>\<open>Text to classify is not defined\<close> on branch 0, or the
  error that names the item. For the empty string, as for every text that is neither
  \<^verbatim>\<open>undefined\<close> nor \<^verbatim>\<open>null\<close>, the chain is invoked with that text and its outcome
  decides the iteration. When the chain answers, the model was called with that text
  and the item is appended, with its origin, to the branch of every category whose
  answer field is true and to no other category branch, and under the policy \<open>Other\<close>
  to the trailing branch exactly when the \<open>fallback\<close> field is true. When the chain
  fails, its message is the error record on branch 0, or the error thrown again. The
  model is called whenever the prompt renders; a prompt that does not render is a
  failure of the chain without a model call.
\<close>

theorem missing_text_only_when_undefined_or_null:
  assumes ne: "cats \<noteq> []"
    and len: "length rd = length cats + (if fb = Other then 1 else 0)"
  shows
   "(inputText cx i = JUndefined \<or> inputText cx i = JNull \<longrightarrow>
        process_item e cx ch cats fb i it rd lg =
          (if continueOnFail cx
           then (Inr (rd[0 := rd ! 0 @ [\<lparr> json = [(''error'', JStr ''Text to classify is not defined'')],
                                           pairedItem = Some i \<rparr>]]), lg)
           else (Inl (NodeOperationError
                        (''Text to classify for item '' @ string_of_nat i @ '' is not defined'')),
                 lg)))
    \<and> (inputText cx i = JStr [] \<or> (inputText cx i \<noteq> JUndefined \<and> inputText cx i \<noteq> JNull) \<longrightarrow>
        (case chain_invoke e ch cats (inputText cx i) lg of
           (Inr out, lg') \<Rightarrow>
             (\<exists>rd' more.
                process_item e cx ch cats fb i it rd lg = (Inr rd', lg')
                \<and> lg' = lg @ Classify (chain_template ch) (join '', '' (map category cats))
                                 (format_instructions e (chain_schema ch)) (inputText cx i) # more
                \<and> (\<forall>j<length cats.
                      rd' ! j = rd ! j @ (if truthy (get_prop out (category (cats ! j)))
                                          then [it\<lparr>pairedItem := Some i\<rparr>] else []))
                \<and> (fb = Other \<longrightarrow>
                      rd' ! length cats =
                        rd ! length cats @ (if truthy (get_prop out ''fallback'')
                                            then [it\<lparr>pairedItem := Some i\<rparr>] else [])))
         | (Inl msg, lg') \<Rightarrow>
             process_item e cx ch cats fb i it rd lg =
               (if continueOnFail cx
                then (Inr (rd[0 := rd ! 0 @ [\<lparr> json = [(''error'', JStr msg)],
                                                pairedItem = Some i \<rparr>]]), lg')
                else (Inl (Rethrown msg), lg')))
        \<and> (render_error e (Classify (chain_template ch) (join '', '' (map category cats))
                             (format_instructions e (chain_schema ch)) (inputText cx i)) = None \<longrightarrow>
             (\<exists>more. snd (process_item e cx ch cats fb i it rd lg) =
                       lg @ Classify (chain_template ch) (join '', '' (map category cats))
                              (format_instructions e (chain_schema ch)) (inputText cx i) # more))
        \<and> (\<forall>err. render_error e (Classify (chain_template ch) (join '', '' (map category cats))
                             (format_instructions e (chain_schema ch)) (inputText cx i)) = Some err \<longrightarrow>
             process_item e cx ch cats fb i it rd lg =
               (if continueOnFail cx
                then (Inr (rd[0 := rd ! 0 @ [\<lparr> json = [(''error'', JStr err)],
                                                pairedItem = Some i \<rparr>]]), lg)
                else (Inl (Rethrown err), lg))))"
proof -
  let ?it = "it\<lparr>pairedItem := Some i\<rparr>"
  let ?req = "Classify (chain_template ch) (join '', '' (map category cats))
                (format_instructions e (chain_schema ch)) (inputText cx i)"
  have req: "chain_request e ch cats (inputText cx i) = ?req" by (simp add: chain_request_def)
  have pos: "0 < length rd" using ne len by simp
  have a: "process_item e cx ch cats fb i it rd lg =
          (if continueOnFail cx
           then (Inr (rd[0 := rd ! 0 @ [\<lparr> json = [(''error'', JStr ''Text to classify is not defined'')],
                                           pairedItem = Some i \<rparr>]]), lg)
           else (Inl (NodeOperationError
                        (''Text to classify for item '' @ string_of_nat i @ '' is not defined'')),
                 lg))"
    if "inputText cx i = JUndefined \<or> inputText cx i = JNull"
    using process_item_missing [OF that, of e ch cats fb it rd lg] pos
    by (simp add: push_branch_0 error_item_def missing_text_message_def)
  have b: "(case chain_invoke e ch cats (inputText cx i) lg of
           (Inr out, lg') \<Rightarrow>
             (\<exists>rd' more.
                process_item e cx ch cats fb i it rd lg = (Inr rd', lg')
                \<and> lg' = lg @ ?req # more
                \<and> (\<forall>j<length cats.
                      rd' ! j = rd ! j @ (if truthy (get_prop out (category (cats ! j)))
                                          then [?it] else []))
                \<and> (fb = Other \<longrightarrow>
                      rd' ! length cats =
                        rd ! length cats @ (if truthy (get_prop out ''fallback'')
                                            then [?it] else [])))
         | (Inl msg, lg') \<Rightarrow>
             process_item e cx ch cats fb i it rd lg =
               (if continueOnFail cx
                then (Inr (rd[0 := rd ! 0 @ [\<lparr> json = [(''error'', JStr msg)],
                                                pairedItem = Some i \<rparr>]]), lg')
                else (Inl (Rethrown msg), lg')))
        \<and> (render_error e ?req = None \<longrightarrow>
             (\<exists>more. snd (process_item e cx ch cats fb i it rd lg) = lg @ ?req # more))
        \<and> (\<forall>err. render_error e ?req = Some err \<longrightarrow>
             process_item e cx ch cats fb i it rd lg =
               (if continueOnFail cx
                then (Inr (rd[0 := rd ! 0 @ [\<lparr> json = [(''error'', JStr err)],
                                                pairedItem = Some i \<rparr>]]), lg)
                else (Inl (Rethrown err), lg)))"
    if p: "inputText cx i \<noteq> JUndefined" "inputText cx i \<noteq> JNull"
  proof -
    obtain res lg' where inv: "chain_invoke e ch cats (inputText cx i) lg = (res, lg')"
      by (cases "chain_invoke e ch cats (inputText cx i) lg")
    have failed: "process_item e cx ch cats fb i it rd lg =
               (if continueOnFail cx
                then (Inr (rd[0 := rd ! 0 @ [\<lparr> json = [(''error'', JStr msg)],
                                                pairedItem = Some i \<rparr>]]), l)
                else (Inl (Rethrown msg), l))"
      if "chain_invoke e ch cats (inputText cx i) lg = (Inl msg, l)" for msg l
      using process_item_failed [OF p that, of fb it rd] pos
      by (simp add: push_branch_0 error_item_def)
    have first: ?thesis
      if one: "case chain_invoke e ch cats (inputText cx i) lg of
           (Inr out, lg') \<Rightarrow>
             (\<exists>rd' more.
                process_item e cx ch cats fb i it rd lg = (Inr rd', lg')
                \<and> lg' = lg @ ?req # more
                \<and> (\<forall>j<length cats.
                      rd' ! j = rd ! j @ (if truthy (get_prop out (category (cats ! j)))
                                          then [?it] else []))
                \<and> (fb = Other \<longrightarrow>
                      rd' ! length cats =
                        rd ! length cats @ (if truthy (get_prop out ''fallback'')
                                            then [?it] else [])))
         | (Inl msg, lg') \<Rightarrow>
             process_item e cx ch cats fb i it rd lg =
               (if continueOnFail cx
                then (Inr (rd[0 := rd ! 0 @ [\<lparr> json = [(''error'', JStr msg)],
                                                pairedItem = Some i \<rparr>]]), lg')
                else (Inl (Rethrown msg), lg'))"
    proof -
      have logeq: "snd (process_item e cx ch cats fb i it rd lg) =
                     snd (chain_invoke e ch cats (inputText cx i) lg)"
        using p by (auto simp: process_item_def Let_def split: prod.splits sum.splits)
      have two: "render_error e ?req = None \<longrightarrow>
             (\<exists>more. snd (process_item e cx ch cats fb i it rd lg) = lg @ ?req # more)"
        using chain_invoke_log [of e ch cats "inputText cx i" lg] by (simp add: logeq req)
      have three: "\<forall>err. render_error e ?req = Some err \<longrightarrow>
             process_item e cx ch cats fb i it rd lg =
               (if continueOnFail cx
                then (Inr (rd[0 := rd ! 0 @ [\<lparr> json = [(''error'', JStr err)],
                                                pairedItem = Some i \<rparr>]]), lg)
                else (Inl (Rethrown err), lg))"
        using failed chain_invoke_unrendered [of e ch cats "inputText cx i" _ lg]
        by (simp add: req)
      from one two three show ?thesis by blast
    qed
    show ?thesis
    proof (cases res)
      case (Inl msg)
      show ?thesis by (rule first) (simp add: inv Inl failed)
    next
      case (Inr out)
      let ?rd' = "route cats fb out ?it rd"
      have st: "process_item e cx ch cats fb i it rd lg = (Inr ?rd', lg')"
        using process_item_classified [OF p] inv Inr by simp
      have "chain_invoke e ch cats (inputText cx i) lg = (Inr out, lg')" using inv Inr by simp
      from chain_invoke_answer_log [OF this] obtain more where
        lg': "lg' = lg @ ?req # more" by (auto simp: req)
      have cat: "\<forall>j<length cats.
            ?rd' ! j = rd ! j @ (if truthy (get_prop out (category (cats ! j)))
                                 then [?it] else [])"
        using nth_route_category [OF len] by blast
      have fbk: "fb = Other \<longrightarrow>
            ?rd' ! length cats = rd ! length cats @ (if truthy (get_prop out ''fallback'')
                                                     then [?it] else [])"
        using len nth_route_fallback [of rd cats out ?it] by auto
      have "\<exists>rd' more.
                process_item e cx ch cats fb i it rd lg = (Inr rd', lg')
                \<and> lg' = lg @ ?req # more
                \<and> (\<forall>j<length cats.
                      rd' ! j = rd ! j @ (if truthy (get_prop out (category (cats ! j)))
                                          then [?it] else []))
                \<and> (fb = Other \<longrightarrow>
                      rd' ! length cats =
                        rd ! length cats @ (if truthy (get_prop out ''fallback'')
                                            then [?it] else []))"
        using st lg' cat fbk by blast
      then show ?thesis by (intro first) (simp add: inv Inr)
    qed
  qed
  have c: "inputText cx i \<noteq> JUndefined \<and> inputText cx i \<noteq> JNull"
    if "inputText cx i = JStr [] \<or> (inputText cx i \<noteq> JUndefined \<and> inputText cx i \<noteq> JNull)"
    using that by auto
  show ?thesis
    apply (intro conjI impI)
       apply (erule a)
      apply (drule c, erule conjE, drule (1) b, elim conjE, assumption)
     apply (drule c, erule conjE, drule (1) b, elim conjE, erule (1) impE, assumption)
    apply (drule c, erule conjE, drule (1) b, elim conjE, assumption)
    done
qed

theorem missing_text_only_when_undefined_or_null_witness:
  "\<exists>rd' more.
      process_item (ex_env_reply ''Bug'') (ex_ctx ex_cats [JStr []] Discard False)
        (chain_config (ex_opts Discard) ex_cats) ex_cats Discard 0
        \<lparr> json = [(''text'', JStr [])], pairedItem = None \<rparr> [[], []] []
      = (Inr rd',
         Classify (system_template (ex_opts Discard)) ''Bug, Feature'' ''FORMAT'' (JStr []) # more)
      \<and> rd' ! 0 = [\<lparr> json = [(''text'', JStr [])], pairedItem = Some 0 \<rparr>]
      \<and> rd' ! 1 = []"
proof -
  let ?e = "ex_env_reply ''Bug''"
  let ?cx = "ex_ctx ex_cats [JStr []] Discard False"
  let ?ch = "chain_config (ex_opts Discard) ex_cats"
  let ?it = "\<lparr> json = [(''text'', JStr [])], pairedItem = None \<rparr>"
  let ?out = "[(''Bug'', JBool True), (''Feature'', JBool False)]"
  let ?req = "Classify (system_template (ex_opts Discard)) ''Bug, Feature'' ''FORMAT'' (JStr [])"
  have h1: "ex_cats \<noteq> []" by (simp add: ex_cats_def)
  have h2: "length [[], []::item list] = length ex_cats + (if Discard = Other then 1 else 0)"
    by (simp add: ex_cats_def)
  have empty: "inputText ?cx 0 = JStr []" by (simp add: ex_ctx_def)
  have inv: "chain_invoke ?e ?ch ex_cats (JStr []) [] = (Inr ?out, [?req])"
    by (simp add: ex_env_reply_def ex_eval)
  have tmpl: "Classify (chain_template ?ch) (join '', '' (map category ex_cats))
                (format_instructions ?e (chain_schema ?ch)) (JStr []) = ?req"
    by (simp add: ex_env_reply_def ex_eval)
  from missing_text_only_when_undefined_or_null
         [OF h1 h2, where cx = ?cx and i = 0 and e = ?e and ch = ?ch and it = ?it and lg = "[]",
          THEN conjunct2, THEN mp, OF disjI1, OF empty, THEN conjunct1]
  have "case chain_invoke ?e ?ch ex_cats (inputText ?cx 0) [] of
           (Inr out, lg') \<Rightarrow>
             (\<exists>rd' more.
                process_item ?e ?cx ?ch ex_cats Discard 0 ?it [[], []] [] = (Inr rd', lg')
                \<and> lg' = [] @ Classify (chain_template ?ch) (join '', '' (map category ex_cats))
                                 (format_instructions ?e (chain_schema ?ch)) (inputText ?cx 0) # more
                \<and> (\<forall>j<length ex_cats.
                      rd' ! j = [[], []] ! j @ (if truthy (get_prop out (category (ex_cats ! j)))
                                          then [?it\<lparr>pairedItem := Some 0\<rparr>] else []))
                \<and> (Discard = Other \<longrightarrow>
                      rd' ! length ex_cats =
                        [[], []] ! length ex_cats @ (if truthy (get_prop out ''fallback'')
                                            then [?it\<lparr>pairedItem := Some 0\<rparr>] else [])))
         | (Inl msg, lg') \<Rightarrow>
             process_item ?e ?cx ?ch ex_cats Discard 0 ?it [[], []] [] =
               (if continueOnFail ?cx
                then (Inr ([[], []][0 := [[], []] ! 0 @ [\<lparr> json = [(''error'', JStr msg)],
                                                pairedItem = Some 0 \<rparr>]]), lg')
                else (Inl (Rethrown msg), lg'))" .
  then obtain rd' more where
    st: "process_item ?e ?cx ?ch ex_cats Discard 0 ?it [[], []] [] = (Inr rd', [?req])" and
    lg: "[?req] = ?req # more" and
    br: "\<forall>j<length ex_cats.
            rd' ! j = [[], []] ! j @ (if truthy (get_prop ?out (category (ex_cats ! j)))
                                     then [?it\<lparr>pairedItem := Some 0\<rparr>] else [])"
    unfolding empty inv tmpl by auto
  have b0: "rd' ! 0 = [\<lparr> json = [(''text'', JStr [])], pairedItem = Some 0 \<rparr>]"
    using br [rule_format, of 0] by (simp add: ex_cats_def get_prop_def)
  have b1: "rd' ! 1 = []"
    using br [rule_format, of 1] by (simp add: ex_cats_def get_prop_def)
  from st lg b0 b1 show ?thesis by auto
qed

text \<open>
  Claim C10 as stated fails where it says that a model call occurs for the empty string:
  with the system prompt template \<^verbatim>\<open>Classify {foo}\<close> the prompt does not render, so the
  item with the empty text gets the error record of the chain and the log of model calls
  stays empty.
\<close>

theorem empty_text_without_model_call:
  "inputText (ex_ctx_template ''Classify {foo}'' [JStr []] True) 0 = JStr []
   \<and> execute ex_env (ex_ctx_template ''Classify {foo}'' [JStr []] True) =
       (Inr [[\<lparr> json = [(''error'', JStr ''Missing value for input variable foo'')],
                pairedItem = Some 0 \<rparr>], []],
        [])"
  by (simp add: ex_run ex_eval)

end
